theory Spec2Isabelle
  imports Complex_Main
begin

section \<open>Pinhole camera model of torchgeometry/core/pinhole.py\<close>

text \<open>
  The module works on torch tensors. Tensor elements are floating-point numbers of one
  dtype; they are idealised here as \<^typ>\<open>real\<close>. A tensor object is a view on a storage:
  it names the storage, has a shape, and gives for every element (in row-major order of
  its indices) the position of that element in the storage, which is what torch computes
  from storage offset and strides. The store is the list of all storages; a new storage
  is appended, so its address is the length of the store before.
\<close>

subsection \<open>Errors\<close>

datatype error =
    ValueError string
  | IndexError
  | AssertionError "nat list"
  | NameError string
  | RuntimeError

definition ebind :: "error + 'a \<Rightarrow> ('a \<Rightarrow> error + 'b) \<Rightarrow> error + 'b" where
  "ebind m f = (case m of Inl e \<Rightarrow> Inl e | Inr x \<Rightarrow> f x)"

subsection \<open>Printing a shape, as \<open>str(torch.Size)\<close> does\<close>

fun str_nat :: "nat \<Rightarrow> string" where
  "str_nat n =
     (if n < 10 then [''0123456789'' ! n]
      else str_nat (n div 10) @ [''0123456789'' ! (n mod 10)])"

declare str_nat.simps [simp del]

fun str_items :: "nat list \<Rightarrow> string" where
  "str_items [] = ''''"
| "str_items [n] = str_nat n"
| "str_items (n # m # ms) = str_nat n @ '', '' @ str_items (m # ms)"

definition str_size :: "nat list \<Rightarrow> string" where
  "str_size sh = ''torch.Size(['' @ str_items sh @ ''])''"

subsection \<open>Tensor objects and cameras\<close>

record tensor =
  storage :: nat
  shape :: "nat list"
  offsets :: "nat list"

text \<open>
  A camera object holds four attribute bindings. No method of the class rebinds an
  attribute after \<open>__init__\<close> (the augmented assignments of \<open>scale_\<close> rebind an
  attribute to the tensor object it already holds), so a camera object is represented
  by its four bindings.
\<close>

record PinholeCamera =
  height :: tensor
  width :: tensor
  intrinsics_attr :: tensor
  extrinsics_attr :: tensor

subsection \<open>Validation in \<open>PinholeCamera.__init__\<close>\<close>

text \<open>
  \<open>_check_valid\<close>: \<open>all(data.shape[0] for data in data_iter)\<close> reads the leading
  dimension of each argument in turn and stops at the first one that is zero. Reading
  \<open>shape[0]\<close> of a tensor of rank 0 raises IndexError.
\<close>

fun check_valid :: "tensor list \<Rightarrow> error + bool" where
  "check_valid [] = Inr True"
| "check_valid (d # ds) =
     (case shape d of
        [] \<Rightarrow> Inl IndexError
      | n # _ \<Rightarrow> if n = 0 then Inl (ValueError ''Arguments shapes must match'')
                 else check_valid ds)"

text \<open>
  \<open>data.shape[-2:] is not (4, 4)\<close> compares object identities: the slice is a
  torch.Size object made by the slicing, the right-hand side is a tuple, and two different
  objects are never identical, whatever they contain.
\<close>

definition slice_is_not_tuple :: "nat list \<Rightarrow> nat list \<Rightarrow> bool" where
  "slice_is_not_tuple sl tup = True"

definition check_valid_params :: "tensor \<Rightarrow> string \<Rightarrow> error + bool" where
  "check_valid_params data data_name =
     (if (length (shape data) \<noteq> 3 \<and> length (shape data) \<noteq> 4) \<and>
         slice_is_not_tuple (drop (length (shape data) - 2) (shape data)) [4, 4]
      then Inl (ValueError (''Argument '' @ data_name @
                  '' shape must be in the following shape Bx4x4 or BxNx4x4. Got '' @
                  str_size (shape data)))
      else Inr True)"

definition check_valid_shape :: "tensor \<Rightarrow> string \<Rightarrow> error + bool" where
  "check_valid_shape data data_name =
     (if \<not> length (shape data) = 1
      then Inl (ValueError (''Argument '' @ data_name @
                  '' shape must be in the following shape B. Got '' @
                  str_size (shape data)))
      else Inr True)"

definition PinholeCamera_init ::
  "tensor \<Rightarrow> tensor \<Rightarrow> tensor \<Rightarrow> tensor \<Rightarrow> error + PinholeCamera" where
  "PinholeCamera_init intrinsics extrinsics h w =
     ebind (check_valid [intrinsics, extrinsics, h, w]) (\<lambda>_.
     ebind (check_valid_params intrinsics ''intrinsics'') (\<lambda>_.
     ebind (check_valid_params extrinsics ''extrinsics'') (\<lambda>_.
     ebind (check_valid_shape h ''height'') (\<lambda>_.
     ebind (check_valid_shape w ''width'') (\<lambda>_.
     Inr \<lparr>height = h, width = w,
          intrinsics_attr = intrinsics, extrinsics_attr = extrinsics\<rparr>)))))"

text \<open>The contiguous tensor object of a given shape on a storage of its own.\<close>

definition contiguous :: "nat \<Rightarrow> nat list \<Rightarrow> tensor" where
  "contiguous a sh = \<lparr>storage = a, shape = sh, offsets = [0..<prod_list sh]\<rparr>"

subsection \<open>Tensor values and broadcasting\<close>

text \<open>
  The free functions of the module read their arguments and return new tensors, so they
  are modelled on tensor values: a shape and the elements in row-major order.
\<close>

record tval =
  vshape :: "nat list"
  vdata :: "real list"

definition wf :: "tval \<Rightarrow> bool" where
  "wf t = (length (vdata t) = prod_list (vshape t))"

text \<open>Element \<open>t[n, c]\<close> of a rank-2 value and \<open>t[n, i, j]\<close> of a rank-3 value.\<close>

definition at2 :: "tval \<Rightarrow> nat \<Rightarrow> nat \<Rightarrow> real" where
  "at2 t n c = vdata t ! (n * (vshape t ! 1) + c)"

definition at3 :: "tval \<Rightarrow> nat \<Rightarrow> nat \<Rightarrow> nat \<Rightarrow> real" where
  "at3 t n i j = vdata t ! ((n * (vshape t ! 1) + i) * (vshape t ! 2) + j)"

text \<open>
  Broadcasting aligns shapes at their last dimension, so the functions below take the
  shapes reversed. \<open>bcast_ok tgt src\<close>: a tensor of shape \<open>src\<close> can be expanded to
  shape \<open>tgt\<close> (what an in-place operation or an assignment needs).
  \<open>bidx tgt src k\<close>: the row-major position, in the source, of the element that the
  expansion puts at row-major position \<open>k\<close>. \<open>broadcast_shapes\<close>: the common shape of
  the two operands of an out-of-place operation.
\<close>

fun bcast_ok :: "nat list \<Rightarrow> nat list \<Rightarrow> bool" where
  "bcast_ok ts [] = True"
| "bcast_ok [] (s # ss) = False"
| "bcast_ok (t # ts) (s # ss) = ((s = 1 \<or> s = t) \<and> bcast_ok ts ss)"

fun bidx :: "nat list \<Rightarrow> nat list \<Rightarrow> nat \<Rightarrow> nat" where
  "bidx (t # ts) (s # ss) k = (if s = 1 then 0 else k mod t) + s * bidx ts ss (k div t)"
| "bidx ts [] k = 0"
| "bidx [] (s # ss) k = 0"

fun broadcast_shapes :: "nat list \<Rightarrow> nat list \<Rightarrow> nat list option" where
  "broadcast_shapes [] ys = Some ys"
| "broadcast_shapes (x # xs) [] = Some (x # xs)"
| "broadcast_shapes (x # xs) (y # ys) =
     (if x = y \<or> y = 1 then map_option ((#) x) (broadcast_shapes xs ys)
      else if x = 1 then map_option ((#) y) (broadcast_shapes xs ys)
      else None)"

text \<open>An elementwise binary operation \<open>a op b\<close> with broadcasting, into a new tensor.\<close>

definition bop :: "(real \<Rightarrow> real \<Rightarrow> real) \<Rightarrow> tval \<Rightarrow> tval \<Rightarrow> error + tval" where
  "bop f a b =
     (case broadcast_shapes (rev (vshape a)) (rev (vshape b)) of
        None \<Rightarrow> Inl RuntimeError
      | Some r \<Rightarrow>
          Inr \<lparr>vshape = rev r,
               vdata = map (\<lambda>k. f (vdata a ! bidx r (rev (vshape a)) k)
                                   (vdata b ! bidx r (rev (vshape b)) k))
                           [0..<prod_list r]\<rparr>)"

text \<open>A tensor combined with a Python number: \<open>t + c\<close>, \<open>c * t\<close>, \<open>c / t\<close>.\<close>

definition add_scalar :: "tval \<Rightarrow> real \<Rightarrow> tval" where
  "add_scalar t c = t\<lparr>vdata := map (\<lambda>x. x + c) (vdata t)\<rparr>"

definition scalar_mul :: "real \<Rightarrow> tval \<Rightarrow> tval" where
  "scalar_mul c t = t\<lparr>vdata := map (\<lambda>x. c * x) (vdata t)\<rparr>"

definition scalar_div :: "real \<Rightarrow> tval \<Rightarrow> tval" where
  "scalar_div c t = t\<lparr>vdata := map (\<lambda>x. c / x) (vdata t)\<rparr>"

text \<open>\<open>torch.eye(n)\<close>, \<open>t.view(sh)\<close> and \<open>t.repeat(n, 1, 1)\<close> on a rank-3 tensor.\<close>

definition eye :: "nat \<Rightarrow> tval" where
  "eye n = \<lparr>vshape = [n, n],
            vdata = map (\<lambda>p. if p div n = p mod n then 1 else 0) [0..<n * n]\<rparr>"

definition view :: "tval \<Rightarrow> nat list \<Rightarrow> error + tval" where
  "view t sh = (if prod_list sh = length (vdata t) then Inr (t\<lparr>vshape := sh\<rparr>)
                else Inl RuntimeError)"

definition repeat_first :: "tval \<Rightarrow> nat \<Rightarrow> error + tval" where
  "repeat_first t n =
     (case vshape t of
        [d0, d1, d2] \<Rightarrow> Inr \<lparr>vshape = [n * d0, d1, d2],
                               vdata = concat (replicate n (vdata t))\<rparr>
      | _ \<Rightarrow> Inl RuntimeError)"

text \<open>
  \<open>t[..., lo:hi]\<close> on a tensor of rank at least 1; a slice is clipped to the size of the
  dimension. \<open>torch.chunk(t, n, dim)\<close> along the last dimension, of positive size:
  pieces of \<open>ceil(size / n)\<close> columns.
\<close>

definition narrow_last :: "tval \<Rightarrow> nat \<Rightarrow> nat \<Rightarrow> tval" where
  "narrow_last t lo hi =
     (let c = last (vshape t); hi' = min hi c; lo' = min lo hi'; wd = hi' - lo'
      in \<lparr>vshape = butlast (vshape t) @ [wd],
           vdata = map (\<lambda>q. vdata t ! ((q div wd) * c + lo' + q mod wd))
                       [0..<prod_list (butlast (vshape t)) * wd]\<rparr>)"

definition chunk_last :: "tval \<Rightarrow> nat \<Rightarrow> tval list" where
  "chunk_last t n =
     (let c = last (vshape t); cs = (c + n - 1) div n
      in map (\<lambda>i. narrow_last t (i * cs) (i * cs + cs)) [0..<(c + cs - 1) div cs])"

text \<open>
  The assignment \<open>t[..., i, lo:hi] = w\<close>: the slice has the shape of \<open>t\<close> without its
  last two dimensions, followed by the number of columns; \<open>w\<close> is expanded to it.
\<close>

definition setitem_row_cols :: "tval \<Rightarrow> nat \<Rightarrow> nat \<Rightarrow> nat \<Rightarrow> tval \<Rightarrow> error + tval" where
  "setitem_row_cols t i lo hi w =
     (let sh = vshape t in
      if length sh < 2 then Inl IndexError
      else
        let r = sh ! (length sh - 2); c = last sh;
            hi' = min hi c; lo' = min lo hi'; wd = hi' - lo';
            tgt = take (length sh - 2) sh @ [wd]
        in if r \<le> i then Inl IndexError
           else if \<not> bcast_ok (rev tgt) (rev (vshape w)) then Inl RuntimeError
           else Inr (t\<lparr>vdata :=
                  map (\<lambda>p. let q = p mod (r * c); col = q mod c
                           in if q div c = i \<and> lo' \<le> col \<and> col < hi'
                              then vdata w ! bidx (rev tgt) (rev (vshape w))
                                               ((p div (r * c)) * wd + (col - lo'))
                              else vdata t ! p)
                      [0..<length (vdata t)]\<rparr>))"

subsection \<open>The flat-parameter functions\<close>

text \<open>
  The warning that each of these functions issues first is not modelled. A failed
  \<open>assert\<close> raises AssertionError with the value of the message expression, here a shape.
\<close>

definition unpack4 :: "tval list \<Rightarrow> error + (tval \<times> tval \<times> tval \<times> tval)" where
  "unpack4 xs = (case xs of [a, b, c, d] \<Rightarrow> Inr (a, b, c, d)
                 | _ \<Rightarrow> Inl (ValueError ''unpack''))"

definition pinhole_matrix :: "tval \<Rightarrow> real \<Rightarrow> error + tval" where
  "pinhole_matrix pinholes eps =
     (if \<not> (length (vshape pinholes) = 2 \<and> vshape pinholes ! 1 = 12)
      then Inl (AssertionError (vshape pinholes))
      else
        ebind (unpack4 (chunk_last (narrow_last pinholes 0 4) 4)) (\<lambda>(fx, fy, cx, cy).
        ebind (view (add_scalar (eye 4) eps) [1, 4, 4]) (\<lambda>k.
        ebind (repeat_first k (vshape pinholes ! 0)) (\<lambda>k.
        ebind (setitem_row_cols k 0 0 1 fx) (\<lambda>k.
        ebind (setitem_row_cols k 0 2 3 cx) (\<lambda>k.
        ebind (setitem_row_cols k 1 1 2 fy) (\<lambda>k.
        setitem_row_cols k 1 2 3 cy)))))))"

definition inverse_pinhole_matrix :: "tval \<Rightarrow> real \<Rightarrow> error + tval" where
  "inverse_pinhole_matrix pinhole eps =
     (if \<not> (length (vshape pinhole) = 2 \<and> vshape pinhole ! 1 = 12)
      then Inl (AssertionError (vshape pinhole))
      else
        ebind (unpack4 (chunk_last (narrow_last pinhole 0 4) 4)) (\<lambda>(fx, fy, cx, cy).
        ebind (view (eye 4) [1, 4, 4]) (\<lambda>k.
        ebind (repeat_first k (vshape pinhole ! 0)) (\<lambda>k.
        ebind (setitem_row_cols k 0 0 1 (scalar_div 1 (add_scalar fx eps))) (\<lambda>k.
        ebind (setitem_row_cols k 1 1 2 (scalar_div 1 (add_scalar fy eps))) (\<lambda>k.
        ebind (bop (/) (scalar_mul (- 1) cx) (add_scalar fx eps)) (\<lambda>v.
        ebind (setitem_row_cols k 0 2 3 v) (\<lambda>k.
        ebind (bop (/) (scalar_mul (- 1) cy) (add_scalar fy eps)) (\<lambda>v.
        setitem_row_cols k 1 2 3 v)))))))))"








subsection \<open>The store and the tensor operations that share or write storage\<close>

text \<open>
  The methods of the classes create tensors, write through views and rebind nothing, so
  they are modelled on tensor objects in a store. \<open>read\<close> gives the elements of a
  tensor object in row-major order. A tensor object is allocated in a store when its
  storage exists there and each of its elements has a position inside that storage.
\<close>

type_synonym store = "real list list"

definition read :: "store \<Rightarrow> tensor \<Rightarrow> real list" where
  "read st t = map (\<lambda>pos. st ! storage t ! pos) (offsets t)"

definition allocated :: "store \<Rightarrow> tensor \<Rightarrow> bool" where
  "allocated st t =
     (storage t < length st \<and> length (offsets t) = prod_list (shape t) \<and>
      list_all (\<lambda>pos. pos < length (st ! storage t)) (offsets t))"

text \<open>
  \<open>t.expand(sh)\<close>, read: the elements that broadcasting gives \<open>t\<close> in an operation
  whose result has shape \<open>sh\<close>.
\<close>

definition expand_values :: "store \<Rightarrow> tensor \<Rightarrow> nat list \<Rightarrow> real list" where
  "expand_values st t sh =
     map (\<lambda>k. read st t ! bidx (rev sh) (rev (shape t)) k) [0..<prod_list sh]"

text \<open>
  \<open>t.clone()\<close>: a new storage with the elements of \<open>t\<close>, and a tensor object of the
  same shape on it. (The order of the elements inside the new storage is taken as
  row-major; no operation of this module depends on it.)
\<close>

definition tensor_clone :: "store \<Rightarrow> tensor \<Rightarrow> store \<times> tensor" where
  "tensor_clone st t = (st @ [read st t], contiguous (length st) (shape t))"

text \<open>
  The views \<open>t[..., i, j]\<close>, \<open>t[..., idx]\<close> and \<open>t[:, idx]\<close>, for indices that are not
  negative. A view is a tensor object on the storage of \<open>t\<close>.
\<close>

definition index_last2 :: "tensor \<Rightarrow> nat \<Rightarrow> nat \<Rightarrow> error + tensor" where
  "index_last2 t i j =
     (let sh = shape t in
      if length sh < 2 then Inl IndexError
      else
        let r = sh ! (length sh - 2); c = last sh; bs = take (length sh - 2) sh
        in if r \<le> i \<or> c \<le> j then Inl IndexError
           else Inr \<lparr>storage = storage t, shape = bs,
                     offsets = map (\<lambda>b. offsets t ! ((b * r + i) * c + j))
                                   [0..<prod_list bs]\<rparr>)"

definition index_last :: "tensor \<Rightarrow> nat \<Rightarrow> error + tensor" where
  "index_last t idx =
     (if shape t = [] then Inl IndexError
      else
        let c = last (shape t); bs = butlast (shape t)
        in if c \<le> idx then Inl IndexError
           else Inr \<lparr>storage = storage t, shape = bs,
                     offsets = map (\<lambda>b. offsets t ! (b * c + idx)) [0..<prod_list bs]\<rparr>)"

definition index_dim1 :: "tensor \<Rightarrow> nat \<Rightarrow> error + tensor" where
  "index_dim1 t idx =
     (case shape t of
        d # k # ds \<Rightarrow>
          if k \<le> idx then Inl IndexError
          else
            let inner = prod_list ds
            in Inr \<lparr>storage = storage t, shape = d # ds,
                    offsets = map (\<lambda>p. offsets t ! ((p div inner * k + idx) * inner + p mod inner))
                                  [0..<d * inner]\<rparr>
      | _ \<Rightarrow> Inl IndexError)"




text \<open>
  \<open>torch.stack(ts, dim=1)\<close>: the tensors must have one shape, of rank at least 1; the
  result, on a new storage, has the length of the list as its dimension 1.
\<close>

definition stack1 :: "store \<Rightarrow> tensor list \<Rightarrow> error + (store \<times> tensor)" where
  "stack1 st ts =
     (case ts of
        [] \<Rightarrow> Inl RuntimeError
      | t # _ \<Rightarrow>
          (case shape t of
             [] \<Rightarrow> Inl IndexError
           | d # ds \<Rightarrow>
               if \<not> list_all (\<lambda>u. shape u = shape t) ts then Inl RuntimeError
               else
                 let k = length ts; inner = prod_list ds
                 in Inr (st @ [map (\<lambda>p. read st (ts ! (p mod (k * inner) div inner)) !
                                         (p div (k * inner) * inner + p mod inner))
                                   [0..<d * k * inner]],
                         contiguous (length st) (d # k # ds))))"

subsection \<open>Properties and methods of \<open>PinholeCamera\<close>\<close>

text \<open>
  The properties \<open>intrinsics\<close> and \<open>extrinsics\<close> check the attribute on every read;
  \<open>fx\<close>, \<open>fy\<close>, \<open>cx\<close>, \<open>cy\<close> are views of the intrinsics. \<open>elements\<close> reads the elements of
  the tensor that a property returned.
\<close>

definition intrinsics :: "PinholeCamera \<Rightarrow> error + tensor" where
  "intrinsics self =
     ebind (check_valid_params (intrinsics_attr self) ''intrinsics'') (\<lambda>_.
     Inr (intrinsics_attr self))"

definition extrinsics :: "PinholeCamera \<Rightarrow> error + tensor" where
  "extrinsics self =
     ebind (check_valid_params (extrinsics_attr self) ''extrinsics'') (\<lambda>_.
     Inr (extrinsics_attr self))"

definition fx :: "PinholeCamera \<Rightarrow> error + tensor" where
  "fx self = ebind (intrinsics self) (\<lambda>t. index_last2 t 0 0)"

definition fy :: "PinholeCamera \<Rightarrow> error + tensor" where
  "fy self = ebind (intrinsics self) (\<lambda>t. index_last2 t 1 1)"

definition cx :: "PinholeCamera \<Rightarrow> error + tensor" where
  "cx self = ebind (intrinsics self) (\<lambda>t. index_last2 t 0 2)"

definition cy :: "PinholeCamera \<Rightarrow> error + tensor" where
  "cy self = ebind (intrinsics self) (\<lambda>t. index_last2 t 1 2)"

definition elements :: "store \<Rightarrow> error + tensor \<Rightarrow> error + real list" where
  "elements st r = (case r of Inl e \<Rightarrow> Inl e | Inr t \<Rightarrow> Inr (read st t))"

definition clone :: "store \<Rightarrow> PinholeCamera \<Rightarrow> error + (store \<times> PinholeCamera)" where
  "clone st self =
     (let (st1, h) = tensor_clone st (height self);
          (st2, w) = tensor_clone st1 (width self)
      in ebind (intrinsics self) (\<lambda>i0.
         let (st3, i) = tensor_clone st2 i0
         in ebind (extrinsics self) (\<lambda>e0.
            let (st4, e) = tensor_clone st3 e0
            in ebind (PinholeCamera_init i e h w) (\<lambda>c. Inr (st4, c)))))"




text \<open>
  A camera as the class documents it: intrinsics and extrinsics of shape B by 4 by 4,
  height and width of shape B, for a batch size B that is not zero, all four allocated.
\<close>

definition valid_camera :: "store \<Rightarrow> PinholeCamera \<Rightarrow> nat \<Rightarrow> bool" where
  "valid_camera st cam B =
     (0 < B \<and> shape (intrinsics_attr cam) = [B, 4, 4] \<and>
      shape (extrinsics_attr cam) = [B, 4, 4] \<and>
      shape (height cam) = [B] \<and> shape (width cam) = [B] \<and>
      allocated st (intrinsics_attr cam) \<and> allocated st (extrinsics_attr cam) \<and>
      allocated st (height cam) \<and> allocated st (width cam))"

subsection \<open>\<open>PinholeCamerasList\<close>\<close>

text \<open>
  The subclass has the four attributes of \<open>PinholeCamera\<close> and is represented by the
  same record. Its constructor does not call the constructor of \<open>PinholeCamera\<close>. The
  loop of \<open>_initialize_parameters\<close> reads, for each camera in turn, \<open>height\<close>, \<open>width\<close>
  and the properties \<open>intrinsics\<close> and \<open>extrinsics\<close>. The type checks of the argument
  are not modelled: the argument is a list of cameras.
\<close>

fun collect ::
  "PinholeCamera list \<Rightarrow> error + (tensor list \<times> tensor list \<times> tensor list \<times> tensor list)" where
  "collect [] = Inr ([], [], [], [])"
| "collect (pinhole # rest) =
     ebind (intrinsics pinhole) (\<lambda>i.
     ebind (extrinsics pinhole) (\<lambda>e.
     ebind (collect rest) (\<lambda>(hs, ws, is, es).
     Inr (height pinhole # hs, width pinhole # ws, i # is, e # es))))"

definition initialize_parameters ::
  "store \<Rightarrow> PinholeCamera list \<Rightarrow> error + (store \<times> PinholeCamera)" where
  "initialize_parameters st pinholes =
     ebind (collect pinholes) (\<lambda>(hs, ws, is, es).
     ebind (stack1 st hs) (\<lambda>(st1, h).
     ebind (stack1 st1 ws) (\<lambda>(st2, w).
     ebind (stack1 st2 is) (\<lambda>(st3, i).
     ebind (stack1 st3 es) (\<lambda>(st4, e).
     Inr (st4, \<lparr>height = h, width = w, intrinsics_attr = i, extrinsics_attr = e\<rparr>))))))"

definition num_cameras :: "PinholeCamera \<Rightarrow> error + nat" where
  "num_cameras self =
     ebind (intrinsics self) (\<lambda>_.
     ebind (intrinsics self) (\<lambda>t.
     if length (shape t) < 2 then Inl IndexError else Inr (shape t ! 1)))"

definition get_pinhole :: "PinholeCamera \<Rightarrow> nat \<Rightarrow> error + PinholeCamera" where
  "get_pinhole self idx =
     ebind (index_last (height self) idx) (\<lambda>h.
     ebind (index_last (width self) idx) (\<lambda>w.
     ebind (intrinsics self) (\<lambda>i0.
     ebind (index_dim1 i0 idx) (\<lambda>i.
     ebind (extrinsics self) (\<lambda>e0.
     ebind (index_dim1 e0 idx) (\<lambda>e.
     PinholeCamera_init i e h w))))))"

subsection \<open>A concrete store\<close>

text \<open>
  A store with a camera of batch size 2 and a scale factor of shape 2, on which the
  theorems about the methods are exercised: storage 0 holds two intrinsics matrices,
  storage 1 two extrinsics matrices, storages 2 and 3 the heights and the widths,
  storage 4 the scale factor.
\<close>

definition store0 :: store where
  "store0 =
     [[500, 0, 320, 0,  0, 510, 240, 0,  0, 0, 1, 0,  0, 0, 0, 1,
       600, 0, 330, 0,  0, 610, 250, 0,  0, 0, 1, 0,  0, 0, 0, 1],
      [1, 0, 0, 5,  0, 1, 0, 6,  0, 0, 1, 7,  0, 0, 0, 1,
       1, 0, 0, 8,  0, 1, 0, 9,  0, 0, 1, 10,  0, 0, 0, 1],
      [480, 490], [640, 650], [2, 3]]"

definition camera0 :: PinholeCamera where
  "camera0 = \<lparr>height = contiguous 2 [2], width = contiguous 3 [2],
      intrinsics_attr = contiguous 0 [2, 4, 4], extrinsics_attr = contiguous 1 [2, 4, 4]\<rparr>"


section \<open>Construction\<close>

lemma ebind_Inr [simp]: "ebind (Inr x) f = f x"
  by (simp add: ebind_def)

lemma ebind_Inl [simp]: "ebind (Inl e) f = Inl e"
  by (simp add: ebind_def)

text \<open>
  C2. Construction from inputs whose batch sizes differ should fail. The code only tests
  that each leading dimension is non-zero: intrinsics of batch size 2 with extrinsics of
  batch size 3 are accepted and a camera is returned.
\<close>

theorem init_accepts_batch_mismatch:
  "PinholeCamera_init (contiguous 0 [2, 4, 4]) (contiguous 1 [3, 4, 4])
       (contiguous 2 [2]) (contiguous 3 [2]) =
     Inr \<lparr>height = contiguous 2 [2], width = contiguous 3 [2],
          intrinsics_attr = contiguous 0 [2, 4, 4],
          extrinsics_attr = contiguous 1 [3, 4, 4]\<rparr>"
  by (simp add: PinholeCamera_init_def check_valid_params_def check_valid_shape_def
      contiguous_def)

text \<open>
  C10. Construction with intrinsics or extrinsics whose last two dimensions are not 4 by 4
  should fail. The code raises only when the rank is neither 3 nor 4: intrinsics of shape
  2 by 3 by 3 and extrinsics of shape 2 by 5 by 7 are accepted.
\<close>

theorem init_accepts_non_4x4:
  "PinholeCamera_init (contiguous 0 [2, 3, 3]) (contiguous 1 [2, 5, 7])
       (contiguous 2 [2]) (contiguous 3 [2]) =
     Inr \<lparr>height = contiguous 2 [2], width = contiguous 3 [2],
          intrinsics_attr = contiguous 0 [2, 3, 3],
          extrinsics_attr = contiguous 1 [2, 5, 7]\<rparr>"
  by (simp add: PinholeCamera_init_def check_valid_params_def check_valid_shape_def
      contiguous_def)

section \<open>The intrinsics builders\<close>

lemma upt4: "[0..<4] = [0, 1, 2, 3::nat]"
  by (simp add: upt_rec)

lemma idx_split: "(n * 4 + i) * 4 + j = (4 * i + j) + n * (16::nat)"
  by (simp add: algebra_simps)

lemma idx_mod16: "i < 4 \<Longrightarrow> j < 4 \<Longrightarrow> ((n * 4 + i) * 4 + j) mod 16 = 4 * i + (j::nat)"
  unfolding idx_split by simp

lemma idx_div16: "i < 4 \<Longrightarrow> j < 4 \<Longrightarrow> ((n * 4 + i) * 4 + j) div 16 = (n::nat)"
  unfolding idx_split by simp

lemma idx_lt16: "n < N \<Longrightarrow> i < 4 \<Longrightarrow> j < 4 \<Longrightarrow> (n * 4 + i) * 4 + j < N * (16::nat)"
proof -
  assume a: "n < N" "i < 4" "j < 4"
  have "(n * 4 + i) * 4 + j < (n + 1) * 16" using a by (simp add: algebra_simps)
  also have "\<dots> \<le> N * 16" using a by (intro mult_le_mono1) simp
  finally show ?thesis .
qed

lemma chunk_columns:
  assumes "vshape p = [N, 12]"
  shows "chunk_last (narrow_last p 0 4) 4 =
     map (\<lambda>c. \<lparr>vshape = [N, 1], vdata = map (\<lambda>n. vdata p ! (n * 12 + c)) [0..<N]\<rparr>) [0, 1, 2, 3]"
proof -
  have nshape: "vshape (narrow_last p 0 4) = [N, 4]"
    using assms by (simp add: narrow_last_def)
  have ndata: "vdata (narrow_last p 0 4) =
      map (\<lambda>q. vdata p ! ((q div 4) * 12 + q mod 4)) [0..<N * 4]"
    using assms by (simp add: narrow_last_def)
  have col: "narrow_last (narrow_last p 0 4) c (c + 1) =
      \<lparr>vshape = [N, 1], vdata = map (\<lambda>n. vdata p ! (n * 12 + c)) [0..<N]\<rparr>" if "c < 4" for c
  proof -
    have "n * 4 + c < N * 4" if "n < N" for n
    proof -
      have "n * 4 + c < (n + 1) * 4" using \<open>c < 4\<close> by simp
      also have "\<dots> \<le> N * 4" using that by (intro mult_le_mono1) simp
      finally show ?thesis .
    qed
    then show ?thesis
      using that by (simp add: narrow_last_def [of "narrow_last p 0 4"] nshape ndata min_def)
  qed
  show ?thesis
    using col [of 0] col [of 1] col [of 2] col [of 3]
    by (simp add: chunk_last_def nshape upt4)
qed

lemma idx_parts:
  assumes "i < 4" "j < 4" "p = (n * 4 + i) * 4 + (j::nat)"
  shows "p mod 16 div 4 = i" "p mod 16 mod 4 = j" "p div 16 = n"
proof -
  have m: "p mod 16 = 4 * i + j" using assms idx_mod16 by simp
  show "p mod 16 div 4 = i" using assms(2) by (simp add: m)
  show "p mod 16 mod 4 = j" using assms(2) by (simp add: m)
  show "p div 16 = n" using assms idx_div16 by simp
qed

lemma setitem_entry:
  assumes k: "vshape k = [N, 4, 4]" "length (vdata k) = N * 16" and w: "vshape w = [N, 1]"
    and ab: "a < 4" "b < 4" and hi: "hi = b + 1"
  shows "\<exists>k'. setitem_row_cols k a b hi w = Inr k' \<and> vshape k' = [N, 4, 4] \<and>
     length (vdata k') = N * 16 \<and>
     (\<forall>n<N. \<forall>i<4. \<forall>j<4. at3 k' n i j = (if i = a \<and> j = b then vdata w ! n else at3 k n i j))"
proof -
  define k' where "k' = k\<lparr>vdata :=
      map (\<lambda>p. if p mod 16 div 4 = a \<and> b \<le> p mod 16 mod 4 \<and> p mod 16 mod 4 < b + 1
               then vdata w ! bidx [1, N] [1, N] (p div 16 + (p mod 16 mod 4 - b))
               else vdata k ! p) [0..<N * 16]\<rparr>"
  have run: "setitem_row_cols k a b hi w = Inr k'"
    using k w ab hi by (simp add: setitem_row_cols_def Let_def k'_def min_def)
  have sh: "vshape k' = [N, 4, 4]" and len: "length (vdata k') = N * 16"
    using k by (simp_all add: k'_def)
  have el: "at3 k' n i j = (if i = a \<and> j = b then vdata w ! n else at3 k n i j)"
    if "n < N" "i < 4" "j < 4" for n i j
  proof -
    define p where "p = (n * 4 + i) * 4 + j"
    have pl: "p < N * 16" unfolding p_def using that by (rule idx_lt16)
    note parts = idx_parts [OF that(2,3) p_def]
    have a1: "at3 k' n i j = vdata k' ! p" by (simp add: at3_def sh p_def)
    have a2: "at3 k n i j = vdata k ! p" by (simp add: at3_def k p_def)
    have bi: "bidx [1, N] [1, N] n = n" using that(1) by simp
    have "vdata k' ! p = (if i = a \<and> j = b then vdata w ! n else vdata k ! p)"
      using pl that(1) by (auto simp: k'_def parts)
    then show ?thesis by (simp add: a1 a2)
  qed
  show ?thesis using run sh len el by blast
qed


lemma concat_replicate_length: "length (concat (replicate N xs)) = N * length xs"
  by (induction N) simp_all

lemma concat_replicate_nth:
  "n < N \<Longrightarrow> q < length xs \<Longrightarrow> concat (replicate N xs) ! (n * length xs + q) = xs ! q"
proof (induction N arbitrary: n)
  case 0
  then show ?case by simp
next
  case (Suc N)
  show ?case
  proof (cases n)
    case 0
    then show ?thesis using Suc.prems by (simp add: nth_append)
  next
    case (Suc m)
    then have "m < N" using Suc.prems by simp
    from Suc.IH [OF this Suc.prems(2)] show ?thesis
      using Suc by (simp add: nth_append)
  qed
qed

lemma eye_plus_entry:
  assumes "n < N" "i < 4" "j < 4"
    and "repeat_first (add_scalar (eye 4) eps\<lparr>vshape := [1, 4, 4]\<rparr>) N = Inr k"
  shows "at3 k n i j = (if i = j then 1 else 0) + eps"
    and "vshape k = [N, 4, 4]" and "length (vdata k) = N * 16"
proof -
  define xs where "xs = map (\<lambda>x. x + eps) (map (\<lambda>p. if p div 4 = p mod 4 then 1 else 0) [0..<16::nat])"
  have lx: "length xs = 16" by (simp add: xs_def)
  have k: "k = \<lparr>vshape = [N, 4, 4], vdata = concat (replicate N xs)\<rparr>"
    using assms(4) by (simp add: repeat_first_def add_scalar_def eye_def xs_def)
  show "vshape k = [N, 4, 4]" by (simp add: k)
  show "length (vdata k) = N * 16" by (simp add: k concat_replicate_length lx)
  have q: "4 * i + j < 16" using assms by simp
  have "at3 k n i j = concat (replicate N xs) ! (n * length xs + (4 * i + j))"
    by (simp add: at3_def k lx algebra_simps)
  also have "\<dots> = xs ! (4 * i + j)"
    using assms(1) q by (intro concat_replicate_nth) (simp_all add: lx)
  also have "\<dots> = (if i = j then 1 else 0) + eps"
    using q assms by (simp add: xs_def del: upt_Suc)
  finally show "at3 k n i j = (if i = j then 1 else 0) + eps" .
qed

lemma pinhole_matrix_run:
  assumes "vshape p = [N, 12]"
  shows "\<exists>k. pinhole_matrix p eps = Inr k \<and> vshape k = [N, 4, 4] \<and>
     length (vdata k) = N * 16 \<and>
     (\<forall>n<N. \<forall>i<4. \<forall>j<4. at3 k n i j =
        (if i = 0 \<and> j = 0 then at2 p n 0
         else if i = 0 \<and> j = 2 then at2 p n 2
         else if i = 1 \<and> j = 1 then at2 p n 1
         else if i = 1 \<and> j = 2 then at2 p n 3
         else (if i = j then 1 else 0) + eps))"
proof -
  define col where "col c = \<lparr>vshape = [N, 1], vdata = map (\<lambda>n. vdata p ! (n * 12 + c)) [0..<N]\<rparr>" for c
  have colsh: "vshape (col c) = [N, 1]" for c by (simp add: col_def)
  have colel: "vdata (col c) ! n = at2 p n c" if "n < N" for n c
    using that assms by (simp add: col_def at2_def)
  obtain k0 where k0: "repeat_first (add_scalar (eye 4) eps\<lparr>vshape := [1, 4, 4]\<rparr>) N = Inr k0"
    by (simp add: repeat_first_def add_scalar_def eye_def)
  note e0 = eye_plus_entry [OF _ _ _ k0]
  have s0: "vshape k0 = [N, 4, 4]" "length (vdata k0) = N * 16"
    using k0 by (auto simp: repeat_first_def add_scalar_def eye_def concat_replicate_length)
  have "\<exists>k'. setitem_row_cols k0 0 0 1 (col 0) = Inr k' \<and> vshape k' = [N, 4, 4] \<and>
     length (vdata k') = N * 16 \<and>
     (\<forall>n<N. \<forall>i<4. \<forall>j<4. at3 k' n i j =
        (if i = 0 \<and> j = 0 then vdata (col 0) ! n else at3 k0 n i j))"
    by (rule setitem_entry [OF s0 colsh]) simp_all
  then obtain k1 where k1: "setitem_row_cols k0 0 0 1 (col 0) = Inr k1"
      "vshape k1 = [N, 4, 4]" "length (vdata k1) = N * 16"
      "\<And>n i j. n < N \<Longrightarrow> i < 4 \<Longrightarrow> j < 4 \<Longrightarrow>
         at3 k1 n i j = (if i = 0 \<and> j = 0 then vdata (col 0) ! n else at3 k0 n i j)"
    by blast
  have "\<exists>k'. setitem_row_cols k1 0 2 3 (col 2) = Inr k' \<and> vshape k' = [N, 4, 4] \<and>
     length (vdata k') = N * 16 \<and>
     (\<forall>n<N. \<forall>i<4. \<forall>j<4. at3 k' n i j =
        (if i = 0 \<and> j = 2 then vdata (col 2) ! n else at3 k1 n i j))"
    by (rule setitem_entry [OF k1(2,3) colsh]) simp_all
  then obtain k2 where k2: "setitem_row_cols k1 0 2 3 (col 2) = Inr k2"
      "vshape k2 = [N, 4, 4]" "length (vdata k2) = N * 16"
      "\<And>n i j. n < N \<Longrightarrow> i < 4 \<Longrightarrow> j < 4 \<Longrightarrow>
         at3 k2 n i j = (if i = 0 \<and> j = 2 then vdata (col 2) ! n else at3 k1 n i j)"
    by blast
  have "\<exists>k'. setitem_row_cols k2 1 1 2 (col 1) = Inr k' \<and> vshape k' = [N, 4, 4] \<and>
     length (vdata k') = N * 16 \<and>
     (\<forall>n<N. \<forall>i<4. \<forall>j<4. at3 k' n i j =
        (if i = 1 \<and> j = 1 then vdata (col 1) ! n else at3 k2 n i j))"
    by (rule setitem_entry [OF k2(2,3) colsh]) simp_all
  then obtain k3 where k3: "setitem_row_cols k2 1 1 2 (col 1) = Inr k3"
      "vshape k3 = [N, 4, 4]" "length (vdata k3) = N * 16"
      "\<And>n i j. n < N \<Longrightarrow> i < 4 \<Longrightarrow> j < 4 \<Longrightarrow>
         at3 k3 n i j = (if i = 1 \<and> j = 1 then vdata (col 1) ! n else at3 k2 n i j)"
    by blast
  have "\<exists>k'. setitem_row_cols k3 1 2 3 (col 3) = Inr k' \<and> vshape k' = [N, 4, 4] \<and>
     length (vdata k') = N * 16 \<and>
     (\<forall>n<N. \<forall>i<4. \<forall>j<4. at3 k' n i j =
        (if i = 1 \<and> j = 2 then vdata (col 3) ! n else at3 k3 n i j))"
    by (rule setitem_entry [OF k3(2,3) colsh]) simp_all
  then obtain k4 where k4: "setitem_row_cols k3 1 2 3 (col 3) = Inr k4"
      "vshape k4 = [N, 4, 4]" "length (vdata k4) = N * 16"
      "\<And>n i j. n < N \<Longrightarrow> i < 4 \<Longrightarrow> j < 4 \<Longrightarrow>
         at3 k4 n i j = (if i = 1 \<and> j = 2 then vdata (col 3) ! n else at3 k3 n i j)"
    by blast
  have run: "pinhole_matrix p eps = Inr k4"
    using assms k0 k1(1) k2(1) k3(1) k4(1)
    by (simp add: pinhole_matrix_def chunk_columns [OF assms] unpack4_def view_def
        add_scalar_def eye_def col_def)
  have "at3 k4 n i j =
        (if i = 0 \<and> j = 0 then at2 p n 0
         else if i = 0 \<and> j = 2 then at2 p n 2
         else if i = 1 \<and> j = 1 then at2 p n 1
         else if i = 1 \<and> j = 2 then at2 p n 3
         else (if i = j then 1 else 0) + eps)" if "n < N" "i < 4" "j < 4" for n i j
    using that by (simp add: k4(4) k3(4) k2(4) k1(4) colel e0(1))
  then show ?thesis using run k4(2,3) by blast
qed

text \<open>
  C4. For every N by 12 parameter tensor and every eps, \<open>pinhole_matrix\<close> returns N
  matrices of size 4 by 4; each is the identity with eps added to every entry, except
  that entry [0,0] is fx, [0,2] is cx, [1,1] is fy and [1,2] is cy, which are columns
  0, 2, 1 and 3 of the parameters. So every other off-diagonal entry is eps, and entries
  [2,2] and [3,3] are 1 + eps.
\<close>

theorem pinhole_matrix_entries:
  assumes "vshape p = [N, 12]"
  shows "\<exists>k. pinhole_matrix p eps = Inr k \<and> vshape k = [N, 4, 4] \<and>
     length (vdata k) = N * 16 \<and>
     (\<forall>n<N. \<forall>i<4. \<forall>j<4. at3 k n i j =
        (if i = 0 \<and> j = 0 then at2 p n 0
         else if i = 0 \<and> j = 2 then at2 p n 2
         else if i = 1 \<and> j = 1 then at2 p n 1
         else if i = 1 \<and> j = 2 then at2 p n 3
         else (if i = j then 1 else 0) + eps))"
  using assms by (rule pinhole_matrix_run)

theorem pinhole_matrix_entries_witness:
  "vshape \<lparr>vshape = [1, 12], vdata = [500, 510, 320, 240, 480, 640, 0, 0, 0, 0, 0, 0]\<rparr> = [1, 12] \<and>
   (\<exists>k. pinhole_matrix
          \<lparr>vshape = [1, 12], vdata = [500, 510, 320, 240, 480, 640, 0, 0, 0, 0, 0, 0]\<rparr>
          (1 / 1000000) = Inr k \<and>
        at3 k 0 0 0 = 500 \<and> at3 k 0 0 2 = 320 \<and> at3 k 0 1 1 = 510 \<and> at3 k 0 1 2 = 240 \<and>
        at3 k 0 0 1 = 1 / 1000000 \<and> at3 k 0 3 3 = 1 + 1 / 1000000)"
proof -
  define p where "p = \<lparr>vshape = [1, 12], vdata = [500, 510, 320, 240, 480, 640, 0, 0, 0, 0, 0, 0]\<rparr>"
  have h: "vshape p = [1, 12]" by (simp add: p_def)
  have "\<exists>k. pinhole_matrix p (1 / 1000000) = Inr k \<and> vshape k = [1, 4, 4] \<and>
     length (vdata k) = 1 * 16 \<and>
     (\<forall>n<1. \<forall>i<4. \<forall>j<4. at3 k n i j =
        (if i = 0 \<and> j = 0 then at2 p n 0
         else if i = 0 \<and> j = 2 then at2 p n 2
         else if i = 1 \<and> j = 1 then at2 p n 1
         else if i = 1 \<and> j = 2 then at2 p n 3
         else (if i = j then 1 else 0) + 1 / 1000000))"
    by (rule pinhole_matrix_entries [OF h])
  then obtain k where run: "pinhole_matrix p (1 / 1000000) = Inr k"
    and el: "\<forall>n<1. \<forall>i<4. \<forall>j<4. at3 k n i j =
        (if i = 0 \<and> j = 0 then at2 p n 0
         else if i = 0 \<and> j = 2 then at2 p n 2
         else if i = 1 \<and> j = 1 then at2 p n 1
         else if i = 1 \<and> j = 2 then at2 p n 3
         else (if i = j then 1 else 0) + 1 / 1000000)"
    by (elim exE conjE)
  have v: "at2 p 0 0 = 500" "at2 p 0 1 = 510" "at2 p 0 2 = 320" "at2 p 0 3 = 240"
    by (simp_all add: at2_def p_def)
  have e1: "at3 k 0 0 0 = 500" using el [rule_format, of 0 0 0] v by simp
  have e2: "at3 k 0 0 2 = 320" using el [rule_format, of 0 0 2] v by simp
  have e3: "at3 k 0 1 1 = 510" using el [rule_format, of 0 1 1] v by simp
  have e4: "at3 k 0 1 2 = 240" using el [rule_format, of 0 1 2] v by simp
  have e5: "at3 k 0 0 1 = 1 / 1000000" using el [rule_format, of 0 0 1] by simp
  have e6: "at3 k 0 3 3 = 1 + 1 / 1000000" using el [rule_format, of 0 3 3] by simp
  show ?thesis
    unfolding p_def [symmetric]
    using h run e1 e2 e3 e4 e5 e6 by (intro conjI exI [of _ k])
qed

lemma eye_entry:
  assumes "n < N" "i < 4" "j < 4"
    and "repeat_first (eye 4\<lparr>vshape := [1, 4, 4]\<rparr>) N = Inr k"
  shows "at3 k n i j = (if i = j then 1 else 0)"
proof -
  define xs :: "real list" where "xs = map (\<lambda>p. if p div 4 = p mod 4 then 1 else 0) [0..<16::nat]"
  have lx: "length xs = 16" by (simp add: xs_def)
  have k: "k = \<lparr>vshape = [N, 4, 4], vdata = concat (replicate N xs)\<rparr>"
    using assms(4) by (simp add: repeat_first_def eye_def xs_def)
  have q: "4 * i + j < 16" using assms by simp
  have "at3 k n i j = concat (replicate N xs) ! (n * length xs + (4 * i + j))"
    by (simp add: at3_def k lx algebra_simps)
  also have "\<dots> = xs ! (4 * i + j)"
    using assms(1) q by (intro concat_replicate_nth) (simp_all add: lx)
  also have "\<dots> = (if i = j then 1 else 0)"
    using q assms by (simp add: xs_def del: upt_Suc)
  finally show ?thesis .
qed

lemma bop_columns:
  assumes "vshape a = [N, 1]" "vshape b = [N, 1]"
  shows "bop f a b = Inr \<lparr>vshape = [N, 1], vdata = map (\<lambda>n. f (vdata a ! n) (vdata b ! n)) [0..<N]\<rparr>"
  using assms by (simp add: bop_def)

lemma inverse_pinhole_matrix_run:
  assumes "vshape p = [N, 12]"
  shows "\<exists>k. inverse_pinhole_matrix p eps = Inr k \<and> vshape k = [N, 4, 4] \<and>
     length (vdata k) = N * 16 \<and>
     (\<forall>n<N. \<forall>i<4. \<forall>j<4. at3 k n i j =
        (if i = 0 \<and> j = 0 then 1 / (at2 p n 0 + eps)
         else if i = 1 \<and> j = 1 then 1 / (at2 p n 1 + eps)
         else if i = 0 \<and> j = 2 then - at2 p n 2 / (at2 p n 0 + eps)
         else if i = 1 \<and> j = 2 then - at2 p n 3 / (at2 p n 1 + eps)
         else if i = j then 1 else 0))"
proof -
  define col where "col c = \<lparr>vshape = [N, 1], vdata = map (\<lambda>n. vdata p ! (n * 12 + c)) [0..<N]\<rparr>" for c
  define inv where "inv c = scalar_div 1 (add_scalar (col c) eps)" for c
  define quo where "quo c d = \<lparr>vshape = [N, 1],
      vdata = map (\<lambda>n. vdata (scalar_mul (- 1) (col c)) ! n / vdata (add_scalar (col d) eps) ! n) [0..<N]\<rparr>" for c d
  have invsh: "vshape (inv c) = [N, 1]" for c
    by (simp add: inv_def col_def scalar_div_def add_scalar_def)
  have quosh: "vshape (quo c d) = [N, 1]" for c d by (simp add: quo_def)
  have invel: "vdata (inv c) ! n = 1 / (at2 p n c + eps)" if "n < N" for n c
    using that assms by (simp add: inv_def col_def at2_def scalar_div_def add_scalar_def)
  have quoel: "vdata (quo c d) ! n = - at2 p n c / (at2 p n d + eps)" if "n < N" for n c d
    using that assms by (simp add: quo_def col_def at2_def scalar_mul_def add_scalar_def)
  have quorun: "bop (/) (scalar_mul (- 1) (col c)) (add_scalar (col d) eps) = Inr (quo c d)" for c d
    unfolding quo_def by (rule bop_columns) (simp_all add: col_def scalar_mul_def add_scalar_def)
  obtain k0 where k0: "repeat_first (eye 4\<lparr>vshape := [1, 4, 4]\<rparr>) N = Inr k0"
    by (simp add: repeat_first_def eye_def)
  note e0 = eye_entry [OF _ _ _ k0]
  have s0: "vshape k0 = [N, 4, 4]" "length (vdata k0) = N * 16"
    using k0 by (auto simp: repeat_first_def eye_def concat_replicate_length)
  have "\<exists>k'. setitem_row_cols k0 0 0 1 (inv 0) = Inr k' \<and> vshape k' = [N, 4, 4] \<and>
     length (vdata k') = N * 16 \<and>
     (\<forall>n<N. \<forall>i<4. \<forall>j<4. at3 k' n i j =
        (if i = 0 \<and> j = 0 then vdata (inv 0) ! n else at3 k0 n i j))"
    by (rule setitem_entry [OF s0 invsh]) simp_all
  then obtain k1 where k1: "setitem_row_cols k0 0 0 1 (inv 0) = Inr k1"
      "vshape k1 = [N, 4, 4]" "length (vdata k1) = N * 16"
      "\<And>n i j. n < N \<Longrightarrow> i < 4 \<Longrightarrow> j < 4 \<Longrightarrow>
         at3 k1 n i j = (if i = 0 \<and> j = 0 then vdata (inv 0) ! n else at3 k0 n i j)"
    by blast
  have "\<exists>k'. setitem_row_cols k1 1 1 2 (inv 1) = Inr k' \<and> vshape k' = [N, 4, 4] \<and>
     length (vdata k') = N * 16 \<and>
     (\<forall>n<N. \<forall>i<4. \<forall>j<4. at3 k' n i j =
        (if i = 1 \<and> j = 1 then vdata (inv 1) ! n else at3 k1 n i j))"
    by (rule setitem_entry [OF k1(2,3) invsh]) simp_all
  then obtain k2 where k2: "setitem_row_cols k1 1 1 2 (inv 1) = Inr k2"
      "vshape k2 = [N, 4, 4]" "length (vdata k2) = N * 16"
      "\<And>n i j. n < N \<Longrightarrow> i < 4 \<Longrightarrow> j < 4 \<Longrightarrow>
         at3 k2 n i j = (if i = 1 \<and> j = 1 then vdata (inv 1) ! n else at3 k1 n i j)"
    by blast
  have "\<exists>k'. setitem_row_cols k2 0 2 3 (quo 2 0) = Inr k' \<and> vshape k' = [N, 4, 4] \<and>
     length (vdata k') = N * 16 \<and>
     (\<forall>n<N. \<forall>i<4. \<forall>j<4. at3 k' n i j =
        (if i = 0 \<and> j = 2 then vdata (quo 2 0) ! n else at3 k2 n i j))"
    by (rule setitem_entry [OF k2(2,3) quosh]) simp_all
  then obtain k3 where k3: "setitem_row_cols k2 0 2 3 (quo 2 0) = Inr k3"
      "vshape k3 = [N, 4, 4]" "length (vdata k3) = N * 16"
      "\<And>n i j. n < N \<Longrightarrow> i < 4 \<Longrightarrow> j < 4 \<Longrightarrow>
         at3 k3 n i j = (if i = 0 \<and> j = 2 then vdata (quo 2 0) ! n else at3 k2 n i j)"
    by blast
  have "\<exists>k'. setitem_row_cols k3 1 2 3 (quo 3 1) = Inr k' \<and> vshape k' = [N, 4, 4] \<and>
     length (vdata k') = N * 16 \<and>
     (\<forall>n<N. \<forall>i<4. \<forall>j<4. at3 k' n i j =
        (if i = 1 \<and> j = 2 then vdata (quo 3 1) ! n else at3 k3 n i j))"
    by (rule setitem_entry [OF k3(2,3) quosh]) simp_all
  then obtain k4 where k4: "setitem_row_cols k3 1 2 3 (quo 3 1) = Inr k4"
      "vshape k4 = [N, 4, 4]" "length (vdata k4) = N * 16"
      "\<And>n i j. n < N \<Longrightarrow> i < 4 \<Longrightarrow> j < 4 \<Longrightarrow>
         at3 k4 n i j = (if i = 1 \<and> j = 2 then vdata (quo 3 1) ! n else at3 k3 n i j)"
    by blast
  have run: "inverse_pinhole_matrix p eps = Inr k4"
    using assms k0 k1(1) k2(1) k3(1) k4(1) quorun [of 2 0] quorun [of 3 1]
    by (simp add: inverse_pinhole_matrix_def chunk_columns [OF assms] unpack4_def view_def
        eye_def col_def inv_def)
  have "at3 k4 n i j =
        (if i = 0 \<and> j = 0 then 1 / (at2 p n 0 + eps)
         else if i = 1 \<and> j = 1 then 1 / (at2 p n 1 + eps)
         else if i = 0 \<and> j = 2 then - at2 p n 2 / (at2 p n 0 + eps)
         else if i = 1 \<and> j = 2 then - at2 p n 3 / (at2 p n 1 + eps)
         else if i = j then 1 else 0)" if "n < N" "i < 4" "j < 4" for n i j
    using that by (simp add: k4(4) k3(4) k2(4) k1(4) invel quoel e0)
  then show ?thesis using run k4(2,3) by blast
qed

text \<open>
  C5. For every N by 12 parameter tensor and every eps, \<open>inverse_pinhole_matrix\<close>
  returns N matrices of size 4 by 4. Every entry other than [0,0], [1,1], [0,2] and
  [1,2] is the entry of the identity matrix, with no eps added. In a row of parameters
  where fx + eps and fy + eps are not zero, entry [0,0] is 1 / (fx + eps), [1,1] is
  1 / (fy + eps), [0,2] is - cx / (fx + eps) and [1,2] is - cy / (fy + eps). (Where a
  denominator is zero the floating-point quotient is infinite or not a number, which
  real numbers do not have; such rows are left out.)
\<close>

theorem inverse_pinhole_matrix_entries:
  assumes "vshape p = [N, 12]"
  shows "\<exists>k. inverse_pinhole_matrix p eps = Inr k \<and> vshape k = [N, 4, 4] \<and>
     length (vdata k) = N * 16 \<and>
     (\<forall>n<N. \<forall>i<4. \<forall>j<4.
        \<not> (i = 0 \<and> j = 0) \<and> \<not> (i = 1 \<and> j = 1) \<and> \<not> (i = 0 \<and> j = 2) \<and> \<not> (i = 1 \<and> j = 2) \<longrightarrow>
        at3 k n i j = (if i = j then 1 else 0)) \<and>
     (\<forall>n<N. at2 p n 0 + eps \<noteq> 0 \<longrightarrow>
        at3 k n 0 0 = 1 / (at2 p n 0 + eps) \<and>
        at3 k n 0 2 = - at2 p n 2 / (at2 p n 0 + eps)) \<and>
     (\<forall>n<N. at2 p n 1 + eps \<noteq> 0 \<longrightarrow>
        at3 k n 1 1 = 1 / (at2 p n 1 + eps) \<and>
        at3 k n 1 2 = - at2 p n 3 / (at2 p n 1 + eps))"
proof -
  from inverse_pinhole_matrix_run [OF assms, of eps]
  obtain k where run: "inverse_pinhole_matrix p eps = Inr k" "vshape k = [N, 4, 4]"
      "length (vdata k) = N * 16"
    and el: "\<forall>n<N. \<forall>i<4. \<forall>j<4. at3 k n i j =
        (if i = 0 \<and> j = 0 then 1 / (at2 p n 0 + eps)
         else if i = 1 \<and> j = 1 then 1 / (at2 p n 1 + eps)
         else if i = 0 \<and> j = 2 then - at2 p n 2 / (at2 p n 0 + eps)
         else if i = 1 \<and> j = 2 then - at2 p n 3 / (at2 p n 1 + eps)
         else if i = j then 1 else 0)"
    by (elim exE conjE)
  have a: "\<forall>n<N. \<forall>i<4. \<forall>j<4.
        \<not> (i = 0 \<and> j = 0) \<and> \<not> (i = 1 \<and> j = 1) \<and> \<not> (i = 0 \<and> j = 2) \<and> \<not> (i = 1 \<and> j = 2) \<longrightarrow>
        at3 k n i j = (if i = j then 1 else 0)"
  proof (intro allI impI)
    fix n i j :: nat
    assume "n < N" "i < 4" "j < 4"
      and "\<not> (i = 0 \<and> j = 0) \<and> \<not> (i = 1 \<and> j = 1) \<and> \<not> (i = 0 \<and> j = 2) \<and> \<not> (i = 1 \<and> j = 2)"
    then show "at3 k n i j = (if i = j then 1 else 0)"
      using el [rule_format, of n i j] by auto
  qed
  have b: "\<forall>n<N. at2 p n 0 + eps \<noteq> 0 \<longrightarrow>
        at3 k n 0 0 = 1 / (at2 p n 0 + eps) \<and>
        at3 k n 0 2 = - at2 p n 2 / (at2 p n 0 + eps)"
  proof (intro allI impI)
    fix n assume "n < N"
    then show "at3 k n 0 0 = 1 / (at2 p n 0 + eps) \<and>
        at3 k n 0 2 = - at2 p n 2 / (at2 p n 0 + eps)"
      using el [rule_format, of n 0 0] el [rule_format, of n 0 2] by simp
  qed
  have c: "\<forall>n<N. at2 p n 1 + eps \<noteq> 0 \<longrightarrow>
        at3 k n 1 1 = 1 / (at2 p n 1 + eps) \<and>
        at3 k n 1 2 = - at2 p n 3 / (at2 p n 1 + eps)"
  proof (intro allI impI)
    fix n assume "n < N"
    then show "at3 k n 1 1 = 1 / (at2 p n 1 + eps) \<and>
        at3 k n 1 2 = - at2 p n 3 / (at2 p n 1 + eps)"
      using el [rule_format, of n 1 1] el [rule_format, of n 1 2] by simp
  qed
  show ?thesis using run a b c by (intro exI [of _ k] conjI)
qed

theorem inverse_pinhole_matrix_entries_witness:
  "vshape \<lparr>vshape = [1, 12], vdata = [4, 9, 8, 27, 480, 640, 0, 0, 0, 0, 0, 0]\<rparr> = [1, 12] \<and>
   (\<exists>k. inverse_pinhole_matrix
          \<lparr>vshape = [1, 12], vdata = [4, 9, 8, 27, 480, 640, 0, 0, 0, 0, 0, 0]\<rparr> 1 = Inr k \<and>
        at3 k 0 0 0 = 1 / 5 \<and> at3 k 0 0 2 = - 8 / 5 \<and>
        at3 k 0 1 1 = 1 / 10 \<and> at3 k 0 1 2 = - 27 / 10 \<and>
        at3 k 0 0 1 = 0 \<and> at3 k 0 2 2 = 1)"
proof -
  define p where "p = \<lparr>vshape = [1, 12], vdata = [4, 9, 8, 27, 480, 640, 0, 0, 0, 0, 0, 0]\<rparr>"
  have h: "vshape p = [1, 12]" by (simp add: p_def)
  have v: "at2 p 0 0 = 4" "at2 p 0 1 = 9" "at2 p 0 2 = 8" "at2 p 0 3 = 27"
    by (simp_all add: at2_def p_def)
  from inverse_pinhole_matrix_entries [OF h, of 1]
  obtain k where run: "inverse_pinhole_matrix p 1 = Inr k"
    and a: "\<forall>n<1. \<forall>i<4. \<forall>j<4.
        \<not> (i = 0 \<and> j = 0) \<and> \<not> (i = 1 \<and> j = 1) \<and> \<not> (i = 0 \<and> j = 2) \<and> \<not> (i = 1 \<and> j = 2) \<longrightarrow>
        at3 k n i j = (if i = j then 1 else 0)"
    and b: "\<forall>n<1. at2 p n 0 + 1 \<noteq> 0 \<longrightarrow>
        at3 k n 0 0 = 1 / (at2 p n 0 + 1) \<and> at3 k n 0 2 = - at2 p n 2 / (at2 p n 0 + 1)"
    and c: "\<forall>n<1. at2 p n 1 + 1 \<noteq> 0 \<longrightarrow>
        at3 k n 1 1 = 1 / (at2 p n 1 + 1) \<and> at3 k n 1 2 = - at2 p n 3 / (at2 p n 1 + 1)"
    by (elim exE conjE)
  have e1: "at3 k 0 0 0 = 1 / 5" and e2: "at3 k 0 0 2 = - 8 / 5"
    using b [rule_format, of 0] v by simp_all
  have e3: "at3 k 0 1 1 = 1 / 10" and e4: "at3 k 0 1 2 = - 27 / 10"
    using c [rule_format, of 0] v by simp_all
  have e5: "at3 k 0 0 1 = 0" using a [rule_format, of 0 0 1] by simp
  have e6: "at3 k 0 2 2 = 1" using a [rule_format, of 0 2 2] by simp
  show ?thesis
    unfolding p_def [symmetric]
    using h run e1 e2 e3 e4 e5 e6 by (intro conjI exI [of _ k])
qed

section \<open>The product of the inverse and the forward matrix\<close>













section \<open>Shape errors of the homography function\<close>







section \<open>Reading and writing the store\<close>

lemma length_read: "length (read st t) = length (offsets t)"
  by (simp add: read_def)


lemma read_same_storage: "st' ! storage t = st ! storage t \<Longrightarrow> read st' t = read st t"
  by (simp add: read_def)

lemma read_append: "storage t < length st \<Longrightarrow> read (st @ xs) t = read st t"
  by (simp add: read_def nth_append)


lemma read_contiguous:
  assumes "length (st ! a) = prod_list sh"
  shows "read st (contiguous a sh) = st ! a"
proof -
  have "read st (contiguous a sh) = map (\<lambda>k. st ! a ! k) [0..<length (st ! a)]"
    using assms by (simp add: read_def contiguous_def)
  then show ?thesis by (simp add: map_nth)
qed

lemma allocated_append: "allocated st t \<Longrightarrow> allocated (st @ xs) t"
  by (simp add: allocated_def nth_append)
















lemma intrinsics_rank3:
  "shape (intrinsics_attr cam) = [B, 4, 4] \<Longrightarrow> intrinsics cam = Inr (intrinsics_attr cam)"
  by (simp add: intrinsics_def check_valid_params_def)

lemma extrinsics_rank3:
  "shape (extrinsics_attr cam) = [B, 4, 4] \<Longrightarrow> extrinsics cam = Inr (extrinsics_attr cam)"
  by (simp add: extrinsics_def check_valid_params_def)

lemma init_rank3:
  assumes "0 < B" "shape i = [B, 4, 4]" "shape e = [B, 4, 4]" "shape h = [B]" "shape w = [B]"
  shows "PinholeCamera_init i e h w =
     Inr \<lparr>height = h, width = w, intrinsics_attr = i, extrinsics_attr = e\<rparr>"
  using assms by (simp add: PinholeCamera_init_def check_valid_params_def check_valid_shape_def)



lemma expand_values_nth:
  "n < B \<Longrightarrow> expand_values st s [B] ! n = read st s ! bidx [B] (rev (shape s)) n"
  by (simp add: expand_values_def)








section \<open>Scaling a camera\<close>



lemma upt2: "[0..<2] = [0, 1::nat]"
  by (simp add: upt_rec)

lemma allocated_contiguous:
  "a < length st \<Longrightarrow> length (st ! a) = prod_list sh \<Longrightarrow> allocated st (contiguous a sh)"
  by (simp add: allocated_def contiguous_def list_all_iff)

lemma contiguous_fields:
  "storage (contiguous a sh) = a" "shape (contiguous a sh) = sh"
  "offsets (contiguous a sh) = [0..<prod_list sh]"
  by (simp_all add: contiguous_def)

lemma valid_camera0: "valid_camera store0 camera0 2"
proof -
  have "allocated store0 (contiguous 0 [2, 4, 4])" "allocated store0 (contiguous 1 [2, 4, 4])"
    "allocated store0 (contiguous 2 [2])" "allocated store0 (contiguous 3 [2])"
    by (rule allocated_contiguous; simp add: store0_def)+
  then show ?thesis by (simp add: valid_camera_def camera0_def contiguous_fields)
qed



lemma camera0_elements:
  "elements store0 (fx camera0) = Inr [500, 600]"
  "elements store0 (fy camera0) = Inr [510, 610]"
  "elements store0 (cx camera0) = Inr [320, 330]"
  "elements store0 (cy camera0) = Inr [240, 250]"
  "read store0 (height camera0) = [480, 490]"
  "read store0 (width camera0) = [640, 650]"
  by (simp_all add: fx_def fy_def cx_def cy_def intrinsics_def check_valid_params_def camera0_def
      contiguous_def index_last2_def elements_def read_def store0_def upt2)


section \<open>Cloning a camera\<close>

lemma read_appended:
  assumes "k < length xs" "length (xs ! k) = prod_list sh"
  shows "read (st @ xs) (contiguous (length st + k) sh) = xs ! k"
proof -
  have n: "(st @ xs) ! (length st + k) = xs ! k" by (simp add: nth_append)
  have "read (st @ xs) (contiguous (length st + k) sh) = (st @ xs) ! (length st + k)"
    by (rule read_contiguous) (simp only: n assms(2))
  then show ?thesis by (simp only: n)
qed

lemma check_valid_params_shape:
  "shape t' = shape t \<Longrightarrow> check_valid_params t' name = check_valid_params t name"
  by (simp add: check_valid_params_def)

lemma check_valid_shape_shape:
  "shape t' = shape t \<Longrightarrow> check_valid_shape t' name = check_valid_shape t name"
  by (simp add: check_valid_shape_def)

lemma check_valid_shapes:
  "map shape ts' = map shape ts \<Longrightarrow> check_valid ts' = check_valid ts"
proof (induction ts arbitrary: ts')
  case Nil
  then show ?case by simp
next
  case (Cons t ts)
  then obtain u us where u: "ts' = u # us" by (cases ts') auto
  with Cons.prems have "shape u = shape t" "map shape us = map shape ts" by simp_all
  with Cons.IH [of us] show ?case by (auto simp: u split: list.splits)
qed

lemma init_checks:
  assumes "PinholeCamera_init i e h w = Inr c"
  shows "\<exists>b. check_valid [i, e, h, w] = Inr b"
    and "\<exists>b. check_valid_params i ''intrinsics'' = Inr b"
    and "\<exists>b. check_valid_params e ''extrinsics'' = Inr b"
    and "\<exists>b. check_valid_shape h ''height'' = Inr b"
    and "\<exists>b. check_valid_shape w ''width'' = Inr b"
    and "c = \<lparr>height = h, width = w, intrinsics_attr = i, extrinsics_attr = e\<rparr>"
  using assms unfolding PinholeCamera_init_def ebind_def
  by (auto split: sum.splits)

lemma init_same_shapes:
  assumes "PinholeCamera_init i e h w = Inr c"
    and "shape i' = shape i" "shape e' = shape e" "shape h' = shape h" "shape w' = shape w"
  shows "PinholeCamera_init i' e' h' w' =
     Inr \<lparr>height = h', width = w', intrinsics_attr = i', extrinsics_attr = e'\<rparr>"
proof -
  note ck = init_checks [OF assms(1)]
  have v: "check_valid [i', e', h', w'] = check_valid [i, e, h, w]"
    by (rule check_valid_shapes) (simp add: assms)
  from ck(1) obtain b1 where b1: "check_valid [i, e, h, w] = Inr b1" by (elim exE)
  from ck(2) obtain b2 where b2: "check_valid_params i ''intrinsics'' = Inr b2" by (elim exE)
  from ck(3) obtain b3 where b3: "check_valid_params e ''extrinsics'' = Inr b3" by (elim exE)
  from ck(4) obtain b4 where b4: "check_valid_shape h ''height'' = Inr b4" by (elim exE)
  from ck(5) obtain b5 where b5: "check_valid_shape w ''width'' = Inr b5" by (elim exE)
  show ?thesis
    unfolding PinholeCamera_init_def v b1
      check_valid_params_shape [OF assms(2)] b2 check_valid_params_shape [OF assms(3)] b3
      check_valid_shape_shape [OF assms(4)] b4 check_valid_shape_shape [OF assms(5)] b5
    by simp
qed

lemma clone_run:
  assumes init: "PinholeCamera_init (intrinsics_attr cam) (extrinsics_attr cam)
        (height cam) (width cam) = Inr cam"
    and st: "storage (width cam) < length st" "storage (intrinsics_attr cam) < length st"
      "storage (extrinsics_attr cam) < length st"
  shows "clone st cam =
     Inr (st @ [read st (height cam), read st (width cam),
                read st (intrinsics_attr cam), read st (extrinsics_attr cam)],
          \<lparr>height = contiguous (length st) (shape (height cam)),
             width = contiguous (length st + 1) (shape (width cam)),
             intrinsics_attr = contiguous (length st + 2) (shape (intrinsics_attr cam)),
             extrinsics_attr = contiguous (length st + 3) (shape (extrinsics_attr cam))\<rparr>)"
proof -
  note ck = init_checks [OF init]
  from ck(2) have i: "intrinsics cam = Inr (intrinsics_attr cam)"
    by (auto simp: intrinsics_def)
  from ck(3) have e: "extrinsics cam = Inr (extrinsics_attr cam)"
    by (auto simp: extrinsics_def)
  have new: "PinholeCamera_init (contiguous (length st + 2) (shape (intrinsics_attr cam)))
      (contiguous (length st + 3) (shape (extrinsics_attr cam)))
      (contiguous (length st) (shape (height cam)))
      (contiguous (length st + 1) (shape (width cam))) =
     Inr \<lparr>height = contiguous (length st) (shape (height cam)),
          width = contiguous (length st + 1) (shape (width cam)),
          intrinsics_attr = contiguous (length st + 2) (shape (intrinsics_attr cam)),
          extrinsics_attr = contiguous (length st + 3) (shape (extrinsics_attr cam))\<rparr>"
    by (rule init_same_shapes [OF init]) (simp_all add: contiguous_fields)
  have l: "length (st @ [read st (height cam)]) = length st + 1"
    "length (st @ [read st (height cam), read st (width cam)]) = length st + 2"
    "length (st @ [read st (height cam), read st (width cam), read st (intrinsics_attr cam)]) =
       length st + 3"
    by simp_all
  have t1: "tensor_clone st (height cam) =
      (st @ [read st (height cam)], contiguous (length st) (shape (height cam)))"
    by (simp add: tensor_clone_def)
  have t2: "tensor_clone (st @ [read st (height cam)]) (width cam) =
      (st @ [read st (height cam), read st (width cam)],
       contiguous (length st + 1) (shape (width cam)))"
    unfolding tensor_clone_def l read_append [OF st(1)] by simp
  have t3: "tensor_clone (st @ [read st (height cam), read st (width cam)]) (intrinsics_attr cam) =
      (st @ [read st (height cam), read st (width cam), read st (intrinsics_attr cam)],
       contiguous (length st + 2) (shape (intrinsics_attr cam)))"
    unfolding tensor_clone_def l read_append [OF st(2)] by simp
  have t4: "tensor_clone (st @ [read st (height cam), read st (width cam),
        read st (intrinsics_attr cam)]) (extrinsics_attr cam) =
      (st @ [read st (height cam), read st (width cam), read st (intrinsics_attr cam),
             read st (extrinsics_attr cam)],
       contiguous (length st + 3) (shape (extrinsics_attr cam)))"
    unfolding tensor_clone_def l read_append [OF st(3)] by simp
  show ?thesis
    by (simp only: clone_def Let_def t1 t2 t3 t4 prod.case i e ebind_Inr new)
qed


lemma read_after_write_elsewhere:
  assumes "storage t < length st" "length st \<le> a"
  shows "read ((st @ ys)[a := xs]) t = read st t"
proof -
  have "(st @ ys)[a := xs] ! storage t = st ! storage t"
    using assms by (simp add: nth_append)
  then have "read ((st @ ys)[a := xs]) t = read st t" by (rule read_same_storage)
  then show ?thesis .
qed

text \<open>
  C9. For every camera that the constructor accepts, with its four tensors allocated in
  the store, \<open>clone\<close> returns a camera whose intrinsics, extrinsics, height and width
  have the shapes and the elements of the original's, each on a storage of its own that
  did not exist before; the call changes no tensor that existed; and after the call,
  whatever is written into the storage of any of the four tensors of the clone, every
  tensor that existed before the call, so every attribute of the original, still reads
  as it did.
\<close>

theorem clone_independent:
  assumes "PinholeCamera_init (intrinsics_attr cam) (extrinsics_attr cam)
        (height cam) (width cam) = Inr cam"
    and "allocated st (intrinsics_attr cam)" "allocated st (extrinsics_attr cam)"
    and "allocated st (height cam)" "allocated st (width cam)"
  shows "\<exists>st' c. clone st cam = Inr (st', c) \<and>
     read st' (intrinsics_attr c) = read st (intrinsics_attr cam) \<and>
     read st' (extrinsics_attr c) = read st (extrinsics_attr cam) \<and>
     read st' (height c) = read st (height cam) \<and>
     read st' (width c) = read st (width cam) \<and>
     shape (intrinsics_attr c) = shape (intrinsics_attr cam) \<and>
     shape (extrinsics_attr c) = shape (extrinsics_attr cam) \<and>
     shape (height c) = shape (height cam) \<and>
     shape (width c) = shape (width cam) \<and>
     length st \<le> storage (intrinsics_attr c) \<and> length st \<le> storage (extrinsics_attr c) \<and>
     length st \<le> storage (height c) \<and> length st \<le> storage (width c) \<and>
     distinct [storage (intrinsics_attr c), storage (extrinsics_attr c),
               storage (height c), storage (width c)] \<and>
     (\<forall>t. storage t < length st \<longrightarrow> read st' t = read st t) \<and>
     (\<forall>u\<in>set [intrinsics_attr c, extrinsics_attr c, height c, width c].
        \<forall>xs t. storage t < length st \<longrightarrow> read (st'[storage u := xs]) t = read st t)"
proof -
  let ?i = "intrinsics_attr cam" and ?e = "extrinsics_attr cam"
  let ?h = "height cam" and ?w = "width cam"
  define ys where "ys = [read st ?h, read st ?w, read st ?i, read st ?e]"
  define st' where "st' = st @ ys"
  define c where "c = \<lparr>height = contiguous (length st) (shape ?h),
      width = contiguous (length st + 1) (shape ?w),
      intrinsics_attr = contiguous (length st + 2) (shape ?i),
      extrinsics_attr = contiguous (length st + 3) (shape ?e)\<rparr>"
  have sto: "storage ?w < length st" "storage ?i < length st" "storage ?e < length st"
    using assms(2,3,5) by (simp_all add: allocated_def)
  have len: "length (read st ?i) = prod_list (shape ?i)" "length (read st ?e) = prod_list (shape ?e)"
    "length (read st ?h) = prod_list (shape ?h)" "length (read st ?w) = prod_list (shape ?w)"
    using assms(2-5) by (simp_all add: allocated_def length_read)
  have run: "clone st cam = Inr (st', c)"
    unfolding st'_def ys_def c_def by (rule clone_run [OF assms(1) sto])
  have rh: "read st' (contiguous (length st + 0) (shape ?h)) = ys ! 0"
    unfolding st'_def by (rule read_appended) (simp_all add: ys_def len)
  have rw: "read st' (contiguous (length st + 1) (shape ?w)) = ys ! 1"
    unfolding st'_def by (rule read_appended) (simp_all add: ys_def len)
  have ri: "read st' (contiguous (length st + 2) (shape ?i)) = ys ! 2"
    unfolding st'_def by (rule read_appended) (simp_all add: ys_def len)
  have re: "read st' (contiguous (length st + 3) (shape ?e)) = ys ! 3"
    unfolding st'_def by (rule read_appended) (simp_all add: ys_def len)
  have p1: "read st' (intrinsics_attr c) = read st ?i" using ri by (simp add: c_def ys_def)
  have p2: "read st' (extrinsics_attr c) = read st ?e" using re by (simp add: c_def ys_def)
  have p3: "read st' (height c) = read st ?h" using rh by (simp add: c_def ys_def)
  have p4: "read st' (width c) = read st ?w" using rw by (simp add: c_def ys_def)
  have sh: "shape (intrinsics_attr c) = shape ?i" "shape (extrinsics_attr c) = shape ?e"
    "shape (height c) = shape ?h" "shape (width c) = shape ?w"
    by (simp_all add: c_def contiguous_fields)
  have sc: "storage (intrinsics_attr c) = length st + 2" "storage (extrinsics_attr c) = length st + 3"
    "storage (height c) = length st" "storage (width c) = length st + 1"
    by (simp_all add: c_def contiguous_fields)
  have new: "length st \<le> storage (intrinsics_attr c)" "length st \<le> storage (extrinsics_attr c)"
    "length st \<le> storage (height c)" "length st \<le> storage (width c)"
    by (simp_all add: sc)
  have dis: "distinct [storage (intrinsics_attr c), storage (extrinsics_attr c),
      storage (height c), storage (width c)]"
    by (simp add: sc)
  have old: "\<forall>t. storage t < length st \<longrightarrow> read st' t = read st t"
    unfolding st'_def by (intro allI impI) (rule read_append)
  have ind: "\<forall>u\<in>set [intrinsics_attr c, extrinsics_attr c, height c, width c].
      \<forall>xs t. storage t < length st \<longrightarrow> read (st'[storage u := xs]) t = read st t"
  proof (intro ballI allI impI)
    fix u t :: tensor and xs :: "real list"
    assume u: "u \<in> set [intrinsics_attr c, extrinsics_attr c, height c, width c]"
      and t: "storage t < length st"
    from u new have "length st \<le> storage u" by auto
    with t show "read (st'[storage u := xs]) t = read st t"
      unfolding st'_def by (rule read_after_write_elsewhere)
  qed
  show ?thesis
    using run p1 p2 p3 p4 sh new dis old ind by (intro exI [of _ st'] exI [of _ c] conjI)
qed

lemma init_camera0:
  "PinholeCamera_init (intrinsics_attr camera0) (extrinsics_attr camera0)
     (height camera0) (width camera0) = Inr camera0"
  by (simp add: PinholeCamera_init_def check_valid_params_def check_valid_shape_def
      camera0_def contiguous_def)

theorem clone_independent_witness:
  "PinholeCamera_init (intrinsics_attr camera0) (extrinsics_attr camera0)
     (height camera0) (width camera0) = Inr camera0 \<and>
   allocated store0 (intrinsics_attr camera0) \<and> allocated store0 (extrinsics_attr camera0) \<and>
   allocated store0 (height camera0) \<and> allocated store0 (width camera0) \<and>
   (\<exists>st' c. clone store0 camera0 = Inr (st', c) \<and>
      read st' (height c) = [480, 490] \<and> read st' (width c) = [640, 650] \<and>
      shape (intrinsics_attr c) = [2, 4, 4] \<and>
      storage (height c) \<noteq> storage (height camera0) \<and>
      read (st'[storage (height c) := [0, 0]]) (height camera0) = [480, 490])"
proof -
  have al: "allocated store0 (intrinsics_attr camera0)" "allocated store0 (extrinsics_attr camera0)"
    "allocated store0 (height camera0)" "allocated store0 (width camera0)"
    using valid_camera0 by (simp_all add: valid_camera_def)
  from clone_independent [OF init_camera0 al]
  obtain st' c where run: "clone store0 camera0 = Inr (st', c)"
    and h: "read st' (height c) = read store0 (height camera0)"
    and w: "read st' (width c) = read store0 (width camera0)"
    and si: "shape (intrinsics_attr c) = shape (intrinsics_attr camera0)"
    and sh: "shape (height c) = shape (height camera0)"
    and nh: "length store0 \<le> storage (height c)"
    and ind: "\<forall>u\<in>set [intrinsics_attr c, extrinsics_attr c, height c, width c].
        \<forall>xs t. storage t < length store0 \<longrightarrow> read (st'[storage u := xs]) t = read store0 t"
    by (elim exE conjE)
  have r1: "read st' (height c) = [480, 490]" by (simp add: h camera0_elements)
  have r2: "read st' (width c) = [640, 650]" by (simp add: w camera0_elements)
  have r3: "shape (intrinsics_attr c) = [2, 4, 4]" by (simp add: si camera0_def contiguous_fields)
  have sth: "storage (height camera0) < length store0"
    by (simp add: camera0_def contiguous_fields store0_def)
  have r4: "storage (height c) \<noteq> storage (height camera0)" using nh sth by simp
  have "read (st'[storage (height c) := [0, 0]]) (height camera0) = read store0 (height camera0)"
    using ind sth by simp
  then have r6: "read (st'[storage (height c) := [0, 0]]) (height camera0) = [480, 490]"
    by (simp add: camera0_elements)
  show ?thesis
    using init_camera0 al run r1 r2 r3 r4 r6 by (intro conjI exI [of _ st'] exI [of _ c])
qed

section \<open>Scaling a camera in place\<close>











section \<open>The list of cameras\<close>

lemma stack_index:
  fixes b K idx inner r :: nat
  assumes "r < inner" "idx < K"
  shows "((b * K + idx) * inner + r) div (K * inner) = b"
    and "((b * K + idx) * inner + r) mod (K * inner) div inner = idx"
    and "((b * K + idx) * inner + r) mod inner = r"
    and "b < d \<Longrightarrow> (b * K + idx) * inner + r < d * K * inner"
proof -
  have e: "(b * K + idx) * inner + r = b * (K * inner) + (idx * inner + r)"
    by (simp add: algebra_simps)
  have "idx * inner + r < (idx + 1) * inner" using assms(1) by simp
  also have "\<dots> \<le> K * inner" using assms(2) by (intro mult_le_mono1) simp
  finally have lt: "idx * inner + r < K * inner" .
  have "0 < K" "0 < inner" using assms by simp_all
  then have mpos: "K * inner \<noteq> 0" by simp
  have "(b * (K * inner) + (idx * inner + r)) div (K * inner) =
      b + (idx * inner + r) div (K * inner)"
    using mpos by (rule div_mult_self3)
  then show "((b * K + idx) * inner + r) div (K * inner) = b"
    unfolding e using lt by simp
  have "(b * (K * inner) + (idx * inner + r)) mod (K * inner) = (idx * inner + r) mod (K * inner)"
    by (rule mod_mult_self3)
  then have m: "((b * K + idx) * inner + r) mod (K * inner) = idx * inner + r"
    unfolding e using lt by simp
  show "((b * K + idx) * inner + r) mod (K * inner) div inner = idx"
    unfolding m using assms(1) by simp
  show "((b * K + idx) * inner + r) mod inner = r"
    using assms(1) by simp
  show "(b * K + idx) * inner + r < d * K * inner" if "b < d"
  proof -
    have "b * (K * inner) + (idx * inner + r) < (b + 1) * (K * inner)" using lt by simp
    also have "\<dots> \<le> d * (K * inner)" using that by (intro mult_le_mono1) simp
    finally show ?thesis unfolding e by (simp add: mult.assoc)
  qed
qed

lemma stack1_effect:
  assumes ne: "ts \<noteq> []" and sh: "\<forall>u\<in>set ts. shape u = d # ds"
    and len: "\<forall>u\<in>set ts. length (offsets u) = d * prod_list ds"
  shows "\<exists>vs. stack1 st ts = Inr (st @ [vs], contiguous (length st) (d # length ts # ds)) \<and>
     length vs = d * length ts * prod_list ds \<and>
     (\<forall>idx<length ts. \<forall>p<d * prod_list ds.
        vs ! ((p div prod_list ds * length ts + idx) * prod_list ds + p mod prod_list ds) =
        read st (ts ! idx) ! p)"
proof -
  define K where "K = length ts"
  define inner where "inner = prod_list ds"
  define vs where "vs = map (\<lambda>p. read st (ts ! (p mod (K * inner) div inner)) !
      (p div (K * inner) * inner + p mod inner)) [0..<d * K * inner]"
  obtain t ts' where ts: "ts = t # ts'" using ne by (cases ts) auto
  have st: "shape t = d # ds" using sh ts by simp
  have all: "list_all (\<lambda>u. shape u = shape t) ts" using sh st by (simp add: list_all_iff)
  have run: "stack1 st ts = Inr (st @ [vs], contiguous (length st) (d # length ts # ds))"
    using all unfolding ts [symmetric]
    by (simp add: stack1_def ts st vs_def K_def inner_def Let_def)
  have lv: "length vs = d * length ts * prod_list ds" by (simp add: vs_def K_def inner_def)
  have el: "\<forall>idx<length ts. \<forall>p<d * prod_list ds.
        vs ! ((p div prod_list ds * length ts + idx) * prod_list ds + p mod prod_list ds) =
        read st (ts ! idx) ! p"
    unfolding K_def [symmetric] inner_def [symmetric]
  proof (intro allI impI)
    fix idx p assume idx: "idx < K" and p: "p < d * inner"
    have pos: "0 < inner" using p by (cases "inner = 0") simp_all
    have r: "p mod inner < inner" using pos by simp
    have b: "p div inner < d" using p pos by (simp add: div_less_iff_less_mult mult.commute)
    note si = stack_index [OF r idx, of "p div inner"]
    have "vs ! ((p div inner * K + idx) * inner + p mod inner) =
        read st (ts ! idx) ! (p div inner * inner + p mod inner)"
      using si(4) [OF b] unfolding vs_def by (simp add: si(1,2,3))
    then show "vs ! ((p div inner * K + idx) * inner + p mod inner) = read st (ts ! idx) ! p"
      by simp
  qed
  show ?thesis using run lv el by (intro exI [of _ vs] conjI)
qed

lemma read_index_dim1:
  assumes a: "st ! a = vs" and idx: "idx < K"
    and xs: "length xs = d * prod_list ds"
    and el: "\<forall>p<d * prod_list ds.
        vs ! ((p div prod_list ds * K + idx) * prod_list ds + p mod prod_list ds) = xs ! p"
  shows "\<exists>v. index_dim1 (contiguous a (d # K # ds)) idx = Inr v \<and> shape v = d # ds \<and>
     read st v = xs"
proof -
  define inner where "inner = prod_list ds"
  define v where "v = \<lparr>storage = a, shape = d # ds,
      offsets = map (\<lambda>p. [0..<d * (K * inner)] ! ((p div inner * K + idx) * inner + p mod inner))
                    [0..<d * inner]\<rparr>"
  have run: "index_dim1 (contiguous a (d # K # ds)) idx = Inr v"
    using idx by (simp add: index_dim1_def contiguous_def v_def inner_def Let_def)
  have q: "(p div inner * K + idx) * inner + p mod inner < d * (K * inner)"
    if p: "p < d * inner" for p
  proof -
    have pos: "0 < inner" using p by (cases "inner = 0") simp_all
    have r: "p mod inner < inner" using pos by simp
    have b: "p div inner < d" using p pos by (simp add: div_less_iff_less_mult mult.commute)
    show ?thesis using stack_index(4) [OF r idx b] by (simp add: mult.assoc)
  qed
  have off: "offsets v = map (\<lambda>p. (p div inner * K + idx) * inner + p mod inner) [0..<d * inner]"
    by (auto simp: v_def q)
  have "read st v = map (\<lambda>p. vs ! ((p div inner * K + idx) * inner + p mod inner)) [0..<d * inner]"
    by (simp add: read_def off) (simp add: v_def a)
  also have "\<dots> = map (\<lambda>p. xs ! p) [0..<d * inner]"
    using el by (intro map_cong [OF refl]) (simp add: inner_def)
  also have "\<dots> = xs" using map_nth [of xs] by (simp add: xs inner_def)
  finally have rd: "read st v = xs" .
  have "shape v = d # ds" by (simp add: v_def)
  with run rd show ?thesis by (intro exI [of _ v] conjI)
qed


lemma read_index_last:
  assumes a: "st ! a = vs" and idx: "idx < K" and xs: "length xs = d"
    and el: "\<forall>p<d. vs ! (p * K + idx) = xs ! p"
  shows "\<exists>v. index_last (contiguous a [d, K]) idx = Inr v \<and> shape v = [d] \<and> read st v = xs"
proof -
  define v where "v = \<lparr>storage = a, shape = [d],
      offsets = map (\<lambda>b. [0..<d * K] ! (b * K + idx)) [0..<d]\<rparr>"
  have run: "index_last (contiguous a [d, K]) idx = Inr v"
    using idx by (simp add: index_last_def contiguous_def v_def Let_def)
  have q: "p * K + idx < d * K" if p: "p < d" for p
  proof -
    have "p * K + idx < (p + 1) * K" using idx by simp
    also have "\<dots> \<le> d * K" using p by (intro mult_le_mono1) simp
    finally show ?thesis .
  qed
  have off: "offsets v = map (\<lambda>p. p * K + idx) [0..<d]"
    by (auto simp: v_def q)
  have "read st v = map (\<lambda>p. vs ! (p * K + idx)) [0..<d]"
    by (simp add: read_def off) (simp add: v_def a)
  also have "\<dots> = map (\<lambda>p. xs ! p) [0..<d]"
    using el by (intro map_cong [OF refl]) simp
  also have "\<dots> = xs" using map_nth [of xs] by (simp add: xs)
  finally have rd: "read st v = xs" .
  have "shape v = [d]" by (simp add: v_def)
  with run rd show ?thesis by (intro exI [of _ v] conjI)
qed

lemma collect_run:
  assumes "\<forall>c\<in>set cams. shape (intrinsics_attr c) = [B, 4, 4] \<and>
      shape (extrinsics_attr c) = [B, 4, 4]"
  shows "collect cams =
     Inr (map height cams, map width cams, map intrinsics_attr cams, map extrinsics_attr cams)"
  using assms
proof (induction cams)
  case Nil
  then show ?case by simp
next
  case (Cons c cams)
  then have i: "intrinsics c = Inr (intrinsics_attr c)" and e: "extrinsics c = Inr (extrinsics_attr c)"
    by (simp_all add: intrinsics_rank3 extrinsics_rank3)
  from Cons have "collect cams =
     Inr (map height cams, map width cams, map intrinsics_attr cams, map extrinsics_attr cams)"
    by simp
  then show ?case by (simp add: i e)
qed

lemma initialize_parameters_run:
  assumes ne: "cams \<noteq> []" and v: "\<forall>c\<in>set cams. valid_camera st c B"
  shows "\<exists>H W I E. initialize_parameters st cams =
       Inr (st @ [H, W, I, E],
            \<lparr>height = contiguous (length st) [B, length cams],
               width = contiguous (length st + 1) [B, length cams],
               intrinsics_attr = contiguous (length st + 2) [B, length cams, 4, 4],
               extrinsics_attr = contiguous (length st + 3) [B, length cams, 4, 4]\<rparr>) \<and>
     (\<forall>i<length cams. \<forall>p<B. H ! (p * length cams + i) = read st (height (cams ! i)) ! p) \<and>
     (\<forall>i<length cams. \<forall>p<B. W ! (p * length cams + i) = read st (width (cams ! i)) ! p) \<and>
     (\<forall>i<length cams. \<forall>p<B * 16.
        I ! ((p div 16 * length cams + i) * 16 + p mod 16) =
        read st (intrinsics_attr (cams ! i)) ! p) \<and>
     (\<forall>i<length cams. \<forall>p<B * 16.
        E ! ((p div 16 * length cams + i) * 16 + p mod 16) =
        read st (extrinsics_attr (cams ! i)) ! p)"
proof -
  define K where "K = length cams"
  define hs where "hs = map height cams"
  define ws where "ws = map width cams"
  define ins where "ins = map intrinsics_attr cams"
  define es where "es = map extrinsics_attr cams"
  have val: "shape (intrinsics_attr c) = [B, 4, 4]" "shape (extrinsics_attr c) = [B, 4, 4]"
    "shape (height c) = [B]" "shape (width c) = [B]"
    "allocated st (intrinsics_attr c)" "allocated st (extrinsics_attr c)"
    "allocated st (height c)" "allocated st (width c)" if "c \<in> set cams" for c
    using v that by (simp_all add: valid_camera_def)
  have col: "collect cams = Inr (hs, ws, ins, es)"
    unfolding hs_def ws_def ins_def es_def by (rule collect_run [where B = B]) (simp add: val)
  have lens: "length hs = K" "length ws = K" "length ins = K" "length es = K"
    by (simp_all add: hs_def ws_def ins_def es_def K_def)
  have nes: "hs \<noteq> []" "ws \<noteq> []" "ins \<noteq> []" "es \<noteq> []"
    using ne by (simp_all add: hs_def ws_def ins_def es_def)
  have sto: "storage (ws ! i) < length st" "storage (ins ! i) < length st"
    "storage (es ! i) < length st" if "i < K" for i
    using val(5,6,8) [of "cams ! i"] that
    by (simp_all add: ws_def ins_def es_def K_def allocated_def)
  have hsh: "\<forall>u\<in>set hs. shape u = B # []" "\<forall>u\<in>set hs. length (offsets u) = B * prod_list []"
    using val(3,7) by (auto simp: hs_def allocated_def)
  have wsh: "\<forall>u\<in>set ws. shape u = B # []" "\<forall>u\<in>set ws. length (offsets u) = B * prod_list []"
    using val(4,8) by (auto simp: ws_def allocated_def)
  have ish: "\<forall>u\<in>set ins. shape u = B # [4, 4]"
    "\<forall>u\<in>set ins. length (offsets u) = B * prod_list [4, 4]"
    using val(1,5) by (auto simp: ins_def allocated_def)
  have esh: "\<forall>u\<in>set es. shape u = B # [4, 4]"
    "\<forall>u\<in>set es. length (offsets u) = B * prod_list [4, 4]"
    using val(2,6) by (auto simp: es_def allocated_def)
  from stack1_effect [OF nes(1) hsh, of st]
  obtain H where rH: "stack1 st hs = Inr (st @ [H], contiguous (length st) [B, length hs])"
    and eH: "\<forall>idx<length hs. \<forall>p<B * prod_list [].
        H ! ((p div prod_list [] * length hs + idx) * prod_list [] + p mod prod_list []) =
        read st (hs ! idx) ! p"
    by (elim exE conjE)
  define st1 where "st1 = st @ [H]"
  from stack1_effect [OF nes(2) wsh, of st1]
  obtain W where rW: "stack1 st1 ws = Inr (st1 @ [W], contiguous (length st1) [B, length ws])"
    and eW: "\<forall>idx<length ws. \<forall>p<B * prod_list [].
        W ! ((p div prod_list [] * length ws + idx) * prod_list [] + p mod prod_list []) =
        read st1 (ws ! idx) ! p"
    by (elim exE conjE)
  define st2 where "st2 = st1 @ [W]"
  from stack1_effect [OF nes(3) ish, of st2]
  obtain I where rI: "stack1 st2 ins = Inr (st2 @ [I], contiguous (length st2) [B, length ins, 4, 4])"
    and eI: "\<forall>idx<length ins. \<forall>p<B * prod_list [4, 4].
        I ! ((p div prod_list [4, 4] * length ins + idx) * prod_list [4, 4] + p mod prod_list [4, 4]) =
        read st2 (ins ! idx) ! p"
    by (elim exE conjE)
  define st3 where "st3 = st2 @ [I]"
  from stack1_effect [OF nes(4) esh, of st3]
  obtain E where rE: "stack1 st3 es = Inr (st3 @ [E], contiguous (length st3) [B, length es, 4, 4])"
    and eE: "\<forall>idx<length es. \<forall>p<B * prod_list [4, 4].
        E ! ((p div prod_list [4, 4] * length es + idx) * prod_list [4, 4] + p mod prod_list [4, 4]) =
        read st3 (es ! idx) ! p"
    by (elim exE conjE)
  have l: "length st1 = length st + 1" "length st2 = length st + 2" "length st3 = length st + 3"
    by (simp_all add: st1_def st2_def st3_def)
  have s4: "st3 @ [E] = st @ [H, W, I, E]" by (simp add: st1_def st2_def st3_def)
  have run: "initialize_parameters st cams =
       Inr (st @ [H, W, I, E],
            \<lparr>height = contiguous (length st) [B, K], width = contiguous (length st + 1) [B, K],
               intrinsics_attr = contiguous (length st + 2) [B, K, 4, 4],
               extrinsics_attr = contiguous (length st + 3) [B, K, 4, 4]\<rparr>)"
    unfolding initialize_parameters_def col ebind_Inr prod.case
      rH [folded st1_def] rW [folded st2_def] rI [folded st3_def] rE
    by (simp only: s4 l lens)
  have pH: "\<forall>i<K. \<forall>p<B. H ! (p * K + i) = read st (height (cams ! i)) ! p"
  proof (intro allI impI)
    fix i p assume i: "i < K" and p: "p < B"
    have "H ! (p * K + i) = read st (hs ! i) ! p"
      using eH [rule_format, of i p] i p by (simp add: lens)
    then show "H ! (p * K + i) = read st (height (cams ! i)) ! p"
      using i by (simp add: hs_def K_def)
  qed
  have pW: "\<forall>i<K. \<forall>p<B. W ! (p * K + i) = read st (width (cams ! i)) ! p"
  proof (intro allI impI)
    fix i p assume i: "i < K" and p: "p < B"
    have "W ! (p * K + i) = read st1 (ws ! i) ! p"
      using eW [rule_format, of i p] i p by (simp add: lens)
    also have "read st1 (ws ! i) = read st (ws ! i)"
      unfolding st1_def using sto(1) [OF i] by (rule read_append)
    finally show "W ! (p * K + i) = read st (width (cams ! i)) ! p"
      using i by (simp add: ws_def K_def)
  qed
  have pI: "\<forall>i<K. \<forall>p<B * 16. I ! ((p div 16 * K + i) * 16 + p mod 16) =
      read st (intrinsics_attr (cams ! i)) ! p"
  proof (intro allI impI)
    fix i p assume i: "i < K" and p: "p < B * 16"
    have "I ! ((p div 16 * K + i) * 16 + p mod 16) = read st2 (ins ! i) ! p"
      using eI [rule_format, of i p] i p by (simp add: lens)
    also have "read st2 (ins ! i) = read st (ins ! i)"
      unfolding st2_def st1_def using sto(2) [OF i] by (simp add: read_append)
    finally show "I ! ((p div 16 * K + i) * 16 + p mod 16) =
        read st (intrinsics_attr (cams ! i)) ! p"
      using i by (simp add: ins_def K_def)
  qed
  have pE: "\<forall>i<K. \<forall>p<B * 16. E ! ((p div 16 * K + i) * 16 + p mod 16) =
      read st (extrinsics_attr (cams ! i)) ! p"
  proof (intro allI impI)
    fix i p assume i: "i < K" and p: "p < B * 16"
    have "E ! ((p div 16 * K + i) * 16 + p mod 16) = read st3 (es ! i) ! p"
      using eE [rule_format, of i p] i p by (simp add: lens)
    also have "read st3 (es ! i) = read st (es ! i)"
      unfolding st3_def st2_def st1_def using sto(3) [OF i] by (simp add: read_append)
    finally show "E ! ((p div 16 * K + i) * 16 + p mod 16) =
        read st (extrinsics_attr (cams ! i)) ! p"
      using i by (simp add: es_def K_def)
  qed
  show ?thesis
    using run pH pW pI pE unfolding K_def
    by (intro exI [of _ H] exI [of _ W] exI [of _ I] exI [of _ E] conjI)
qed


lemma intrinsics_rank4:
  "shape (intrinsics_attr cam) = [B, K, 4, 4] \<Longrightarrow> intrinsics cam = Inr (intrinsics_attr cam)"
  by (simp add: intrinsics_def check_valid_params_def)

lemma extrinsics_rank4:
  "shape (extrinsics_attr cam) = [B, K, 4, 4] \<Longrightarrow> extrinsics cam = Inr (extrinsics_attr cam)"
  by (simp add: extrinsics_def check_valid_params_def)

text \<open>
  C8, amended. For every non-empty list of cameras that all have intrinsics and
  extrinsics of shape B by 4 by 4 and height and width of shape B, allocated in the
  store, the list of cameras is built; its height and width have shape B by K and its
  intrinsics and extrinsics shape B by K by 4 by 4, K being the length of the list;
  \<open>num_cameras\<close> is K; building it changes no tensor that existed; and for every index
  i below K, \<open>get_pinhole\<close> returns a camera whose intrinsics, extrinsics, height and
  width have the shapes and the elements of those of the i-th camera of the list.
\<close>

theorem cameras_list_of_rank3_cameras:
  assumes "cams \<noteq> []" "\<forall>c\<in>set cams. valid_camera st c B"
  shows "\<exists>st' lst. initialize_parameters st cams = Inr (st', lst) \<and>
     shape (height lst) = [B, length cams] \<and> shape (width lst) = [B, length cams] \<and>
     shape (intrinsics_attr lst) = [B, length cams, 4, 4] \<and>
     shape (extrinsics_attr lst) = [B, length cams, 4, 4] \<and>
     num_cameras lst = Inr (length cams) \<and>
     (\<forall>t. storage t < length st \<longrightarrow> read st' t = read st t) \<and>
     (\<forall>i<length cams. \<exists>c. get_pinhole lst i = Inr c \<and>
        shape (intrinsics_attr c) = [B, 4, 4] \<and> shape (extrinsics_attr c) = [B, 4, 4] \<and>
        shape (height c) = [B] \<and> shape (width c) = [B] \<and>
        read st' (intrinsics_attr c) = read st (intrinsics_attr (cams ! i)) \<and>
        read st' (extrinsics_attr c) = read st (extrinsics_attr (cams ! i)) \<and>
        read st' (height c) = read st (height (cams ! i)) \<and>
        read st' (width c) = read st (width (cams ! i)))"
proof -
  define K where "K = length cams"
  from initialize_parameters_run [OF assms]
  obtain H W I E where run0: "initialize_parameters st cams =
       Inr (st @ [H, W, I, E],
            \<lparr>height = contiguous (length st) [B, length cams],
               width = contiguous (length st + 1) [B, length cams],
               intrinsics_attr = contiguous (length st + 2) [B, length cams, 4, 4],
               extrinsics_attr = contiguous (length st + 3) [B, length cams, 4, 4]\<rparr>)"
    and pH: "\<forall>i<length cams. \<forall>p<B. H ! (p * length cams + i) = read st (height (cams ! i)) ! p"
    and pW: "\<forall>i<length cams. \<forall>p<B. W ! (p * length cams + i) = read st (width (cams ! i)) ! p"
    and pI: "\<forall>i<length cams. \<forall>p<B * 16.
        I ! ((p div 16 * length cams + i) * 16 + p mod 16) =
        read st (intrinsics_attr (cams ! i)) ! p"
    and pE: "\<forall>i<length cams. \<forall>p<B * 16.
        E ! ((p div 16 * length cams + i) * 16 + p mod 16) =
        read st (extrinsics_attr (cams ! i)) ! p"
    by (elim exE conjE)
  define st' where "st' = st @ [H, W, I, E]"
  define th where "th = contiguous (length st) [B, K]"
  define tw where "tw = contiguous (length st + 1) [B, K]"
  define ti where "ti = contiguous (length st + 2) [B, K, 4, 4]"
  define te where "te = contiguous (length st + 3) [B, K, 4, 4]"
  define lst where "lst = \<lparr>height = th, width = tw, intrinsics_attr = ti, extrinsics_attr = te\<rparr>"
  have run: "initialize_parameters st cams = Inr (st', lst)"
    using run0 by (simp only: st'_def lst_def th_def tw_def ti_def te_def K_def)
  have shl: "shape (height lst) = [B, K]" "shape (width lst) = [B, K]"
    "shape (intrinsics_attr lst) = [B, K, 4, 4]" "shape (extrinsics_attr lst) = [B, K, 4, 4]"
    by (simp_all add: lst_def th_def tw_def ti_def te_def contiguous_fields)
  have il: "intrinsics lst = Inr ti"
    using intrinsics_rank4 [OF shl(3)] by (simp add: lst_def)
  have el: "extrinsics lst = Inr te"
    using extrinsics_rank4 [OF shl(4)] by (simp add: lst_def)
  have nc: "num_cameras lst = Inr K"
    by (simp add: num_cameras_def il) (simp add: ti_def contiguous_fields)
  have old: "\<forall>t. storage t < length st \<longrightarrow> read st' t = read st t"
    unfolding st'_def by (intro allI impI) (rule read_append)
  have n: "st' ! length st = H" "st' ! (length st + 1) = W" "st' ! (length st + 2) = I"
    "st' ! (length st + 3) = E"
    by (simp_all add: st'_def nth_append)
  obtain c0 where c0: "c0 \<in> set cams" using assms(1) by (cases cams) auto
  have B: "0 < B" using assms(2) c0 by (auto simp: valid_camera_def)
  have get: "\<exists>c. get_pinhole lst i = Inr c \<and>
        shape (intrinsics_attr c) = [B, 4, 4] \<and> shape (extrinsics_attr c) = [B, 4, 4] \<and>
        shape (height c) = [B] \<and> shape (width c) = [B] \<and>
        read st' (intrinsics_attr c) = read st (intrinsics_attr (cams ! i)) \<and>
        read st' (extrinsics_attr c) = read st (extrinsics_attr (cams ! i)) \<and>
        read st' (height c) = read st (height (cams ! i)) \<and>
        read st' (width c) = read st (width (cams ! i))" if i: "i < K" for i
  proof -
    have ci: "cams ! i \<in> set cams" using i by (simp add: K_def)
    from assms(2) ci have vi: "valid_camera st (cams ! i) B" by simp
    have lh: "length (read st (height (cams ! i))) = B"
      and lw: "length (read st (width (cams ! i))) = B"
      and li: "length (read st (intrinsics_attr (cams ! i))) = B * prod_list [4, 4]"
      and le: "length (read st (extrinsics_attr (cams ! i))) = B * prod_list [4, 4]"
      using vi by (simp_all add: valid_camera_def allocated_def length_read)
    have eh: "\<forall>p<B. H ! (p * K + i) = read st (height (cams ! i)) ! p"
      using pH i by (simp add: K_def)
    have ew: "\<forall>p<B. W ! (p * K + i) = read st (width (cams ! i)) ! p"
      using pW i by (simp add: K_def)
    have ei: "\<forall>p<B * prod_list [4, 4].
        I ! ((p div prod_list [4, 4] * K + i) * prod_list [4, 4] + p mod prod_list [4, 4]) =
        read st (intrinsics_attr (cams ! i)) ! p"
      using pI i by (simp add: K_def)
    have ee: "\<forall>p<B * prod_list [4, 4].
        E ! ((p div prod_list [4, 4] * K + i) * prod_list [4, 4] + p mod prod_list [4, 4]) =
        read st (extrinsics_attr (cams ! i)) ! p"
      using pE i by (simp add: K_def)
    from read_index_last [OF n(1) i lh eh]
    obtain vh where vh: "index_last th i = Inr vh" "shape vh = [B]"
      "read st' vh = read st (height (cams ! i))"
      unfolding th_def by (elim exE conjE)
    from read_index_last [OF n(2) i lw ew]
    obtain vw where vw: "index_last tw i = Inr vw" "shape vw = [B]"
      "read st' vw = read st (width (cams ! i))"
      unfolding tw_def by (elim exE conjE)
    from read_index_dim1 [OF n(3) i li ei]
    obtain vi where vi: "index_dim1 ti i = Inr vi" "shape vi = [B, 4, 4]"
      "read st' vi = read st (intrinsics_attr (cams ! i))"
      unfolding ti_def by (elim exE conjE)
    from read_index_dim1 [OF n(4) i le ee]
    obtain ve where ve: "index_dim1 te i = Inr ve" "shape ve = [B, 4, 4]"
      "read st' ve = read st (extrinsics_attr (cams ! i))"
      unfolding te_def by (elim exE conjE)
    define c where "c = \<lparr>height = vh, width = vw, intrinsics_attr = vi, extrinsics_attr = ve\<rparr>"
    have "get_pinhole lst i = PinholeCamera_init vi ve vh vw"
      unfolding get_pinhole_def il el by (simp add: lst_def vh(1) vw(1) vi(1) ve(1))
    also have "\<dots> = Inr c"
      unfolding c_def using B vi(2) ve(2) vh(2) vw(2) by (rule init_rank3)
    finally have g: "get_pinhole lst i = Inr c" .
    show ?thesis
      using g vi(2,3) ve(2,3) vh(2,3) vw(2,3)
      by (intro exI [of _ c] conjI) (simp_all add: c_def)
  qed
  have all: "\<forall>i<K. \<exists>c. get_pinhole lst i = Inr c \<and>
        shape (intrinsics_attr c) = [B, 4, 4] \<and> shape (extrinsics_attr c) = [B, 4, 4] \<and>
        shape (height c) = [B] \<and> shape (width c) = [B] \<and>
        read st' (intrinsics_attr c) = read st (intrinsics_attr (cams ! i)) \<and>
        read st' (extrinsics_attr c) = read st (extrinsics_attr (cams ! i)) \<and>
        read st' (height c) = read st (height (cams ! i)) \<and>
        read st' (width c) = read st (width (cams ! i))"
    by (intro allI impI) (rule get)
  show ?thesis
    unfolding K_def [symmetric]
    by (rule exI [of _ st'], rule exI [of _ lst]) (intro conjI run shl nc old all)
qed


theorem cameras_list_of_rank3_cameras_witness:
  "[camera0,
    \<lparr>height = contiguous 3 [2], width = contiguous 2 [2],
       intrinsics_attr = contiguous 1 [2, 4, 4], extrinsics_attr = contiguous 0 [2, 4, 4]\<rparr>,
    camera0] \<noteq> [] \<and>
   valid_camera store0 camera0 2 \<and>
   valid_camera store0
     \<lparr>height = contiguous 3 [2], width = contiguous 2 [2],
        intrinsics_attr = contiguous 1 [2, 4, 4], extrinsics_attr = contiguous 0 [2, 4, 4]\<rparr> 2 \<and>
   (\<exists>st' lst. initialize_parameters store0
        [camera0,
         \<lparr>height = contiguous 3 [2], width = contiguous 2 [2],
            intrinsics_attr = contiguous 1 [2, 4, 4], extrinsics_attr = contiguous 0 [2, 4, 4]\<rparr>,
         camera0] = Inr (st', lst) \<and>
      num_cameras lst = Inr 3 \<and> shape (intrinsics_attr lst) = [2, 3, 4, 4] \<and>
      shape (height lst) = [2, 3] \<and>
      (\<exists>c. get_pinhole lst 1 = Inr c \<and> shape (intrinsics_attr c) = [2, 4, 4] \<and>
           read st' (height c) = [640, 650] \<and> read st' (width c) = [480, 490] \<and>
           read st' (intrinsics_attr c) = store0 ! 1 \<and>
           read st' (extrinsics_attr c) = store0 ! 0) \<and>
      (\<exists>c. get_pinhole lst 2 = Inr c \<and>
           read st' (height c) = [480, 490] \<and> read st' (width c) = [640, 650] \<and>
           read st' (intrinsics_attr c) = store0 ! 0))"
proof -
  define camB where "camB = \<lparr>height = contiguous 3 [2], width = contiguous 2 [2],
      intrinsics_attr = contiguous 1 [2, 4, 4], extrinsics_attr = contiguous 0 [2, 4, 4]\<rparr>"
  define cams where "cams = [camera0, camB, camera0]"
  have al: "allocated store0 (contiguous 0 [2, 4, 4])" "allocated store0 (contiguous 1 [2, 4, 4])"
    "allocated store0 (contiguous 2 [2])" "allocated store0 (contiguous 3 [2])"
    by (rule allocated_contiguous; simp add: store0_def)+
  have vB: "valid_camera store0 camB 2"
    using al by (simp add: valid_camera_def camB_def contiguous_fields)
  have ne: "cams \<noteq> []" by (simp add: cams_def)
  have v: "\<forall>c\<in>set cams. valid_camera store0 c 2"
    using valid_camera0 vB by (simp add: cams_def)
  have rd: "read store0 (contiguous 0 [2, 4, 4]) = store0 ! 0"
    "read store0 (contiguous 1 [2, 4, 4]) = store0 ! 1"
    "read store0 (contiguous 2 [2]) = [480, 490]" "read store0 (contiguous 3 [2]) = [640, 650]"
    by (rule trans [OF read_contiguous]; simp add: store0_def)+
  from cameras_list_of_rank3_cameras [OF ne v]
  obtain st' lst where run: "initialize_parameters store0 cams = Inr (st', lst)"
    and sh: "shape (height lst) = [2, length cams]"
      "shape (intrinsics_attr lst) = [2, length cams, 4, 4]"
    and nc: "num_cameras lst = Inr (length cams)"
    and get: "\<forall>i<length cams. \<exists>c. get_pinhole lst i = Inr c \<and>
        shape (intrinsics_attr c) = [2, 4, 4] \<and> shape (extrinsics_attr c) = [2, 4, 4] \<and>
        shape (height c) = [2] \<and> shape (width c) = [2] \<and>
        read st' (intrinsics_attr c) = read store0 (intrinsics_attr (cams ! i)) \<and>
        read st' (extrinsics_attr c) = read store0 (extrinsics_attr (cams ! i)) \<and>
        read st' (height c) = read store0 (height (cams ! i)) \<and>
        read st' (width c) = read store0 (width (cams ! i))"
    by (elim exE conjE)
  have l: "length cams = 3" by (simp add: cams_def)
  have i1: "1 < length cams" and i2: "2 < length cams" by (simp_all add: l)
  from get [rule_format, OF i1]
  obtain c1 where c1: "get_pinhole lst 1 = Inr c1" "shape (intrinsics_attr c1) = [2, 4, 4]"
    "read st' (intrinsics_attr c1) = read store0 (intrinsics_attr (cams ! 1))"
    "read st' (extrinsics_attr c1) = read store0 (extrinsics_attr (cams ! 1))"
    "read st' (height c1) = read store0 (height (cams ! 1))"
    "read st' (width c1) = read store0 (width (cams ! 1))"
    by (elim exE conjE)
  from get [rule_format, OF i2]
  obtain c2 where c2: "get_pinhole lst 2 = Inr c2"
    "read st' (intrinsics_attr c2) = read store0 (intrinsics_attr (cams ! 2))"
    "read st' (height c2) = read store0 (height (cams ! 2))"
    "read st' (width c2) = read store0 (width (cams ! 2))"
    by (elim exE conjE)
  have g1: "\<exists>c. get_pinhole lst 1 = Inr c \<and> shape (intrinsics_attr c) = [2, 4, 4] \<and>
           read st' (height c) = [640, 650] \<and> read st' (width c) = [480, 490] \<and>
           read st' (intrinsics_attr c) = store0 ! 1 \<and>
           read st' (extrinsics_attr c) = store0 ! 0"
    using c1 by (intro exI [of _ c1] conjI) (simp_all add: cams_def camB_def rd del: One_nat_def)
  have g2: "\<exists>c. get_pinhole lst 2 = Inr c \<and>
           read st' (height c) = [480, 490] \<and> read st' (width c) = [640, 650] \<and>
           read st' (intrinsics_attr c) = store0 ! 0"
    using c2 by (intro exI [of _ c2] conjI) (simp_all add: cams_def camera0_def rd)
  have n3: "num_cameras lst = Inr 3" using nc by (simp add: l)
  have s3: "shape (intrinsics_attr lst) = [2, 3, 4, 4]" "shape (height lst) = [2, 3]"
    using sh by (simp_all add: l)
  have "\<exists>st' lst. initialize_parameters store0 cams = Inr (st', lst) \<and>
      num_cameras lst = Inr 3 \<and> shape (intrinsics_attr lst) = [2, 3, 4, 4] \<and>
      shape (height lst) = [2, 3] \<and>
      (\<exists>c. get_pinhole lst 1 = Inr c \<and> shape (intrinsics_attr c) = [2, 4, 4] \<and>
           read st' (height c) = [640, 650] \<and> read st' (width c) = [480, 490] \<and>
           read st' (intrinsics_attr c) = store0 ! 1 \<and>
           read st' (extrinsics_attr c) = store0 ! 0) \<and>
      (\<exists>c. get_pinhole lst 2 = Inr c \<and>
           read st' (height c) = [480, 490] \<and> read st' (width c) = [640, 650] \<and>
           read st' (intrinsics_attr c) = store0 ! 0)"
    by (rule exI [of _ st'], rule exI [of _ lst]) (intro conjI run n3 s3 g1 g2)
  with ne valid_camera0 vB show ?thesis
    unfolding cams_def camB_def by (intro conjI)
qed

text \<open>
  C8, as stated, is about every non-empty list of cameras, and a camera may have
  intrinsics and extrinsics of shape B by N by 4 by 4. For the list of one such camera,
  which the constructor of \<open>PinholeCamera\<close> accepts, with N = 1, the stacked intrinsics
  have rank 5: the list is built, but \<open>num_cameras\<close> and \<open>get_pinhole\<close> raise the
  ValueError of the property \<open>intrinsics\<close>.
\<close>

theorem cameras_list_of_rank4_camera_fails:
  "PinholeCamera_init (contiguous 0 [2, 1, 4, 4]) (contiguous 1 [2, 1, 4, 4])
     (contiguous 2 [2]) (contiguous 3 [2]) =
     Inr \<lparr>height = contiguous 2 [2], width = contiguous 3 [2],
          intrinsics_attr = contiguous 0 [2, 1, 4, 4],
          extrinsics_attr = contiguous 1 [2, 1, 4, 4]\<rparr> \<and>
   allocated store0 (contiguous 0 [2, 1, 4, 4]) \<and> allocated store0 (contiguous 1 [2, 1, 4, 4]) \<and>
   allocated store0 (contiguous 2 [2]) \<and> allocated store0 (contiguous 3 [2]) \<and>
   (\<exists>st' lst. initialize_parameters store0
        [\<lparr>height = contiguous 2 [2], width = contiguous 3 [2],
           intrinsics_attr = contiguous 0 [2, 1, 4, 4],
           extrinsics_attr = contiguous 1 [2, 1, 4, 4]\<rparr>] = Inr (st', lst) \<and>
      shape (intrinsics_attr lst) = [2, 1, 1, 4, 4] \<and>
      num_cameras lst = Inl (ValueError
        ''Argument intrinsics shape must be in the following shape Bx4x4 or BxNx4x4. Got torch.Size([2, 1, 1, 4, 4])'') \<and>
      get_pinhole lst 0 = Inl (ValueError
        ''Argument intrinsics shape must be in the following shape Bx4x4 or BxNx4x4. Got torch.Size([2, 1, 1, 4, 4])''))"
proof -
  have al: "allocated store0 (contiguous 0 [2, 1, 4, 4])" "allocated store0 (contiguous 1 [2, 1, 4, 4])"
    "allocated store0 (contiguous 2 [2])" "allocated store0 (contiguous 3 [2])"
    by (rule allocated_contiguous; simp add: store0_def)+
  have init: "PinholeCamera_init (contiguous 0 [2, 1, 4, 4]) (contiguous 1 [2, 1, 4, 4])
     (contiguous 2 [2]) (contiguous 3 [2]) =
     Inr \<lparr>height = contiguous 2 [2], width = contiguous 3 [2],
          intrinsics_attr = contiguous 0 [2, 1, 4, 4],
          extrinsics_attr = contiguous 1 [2, 1, 4, 4]\<rparr>"
    by (simp add: PinholeCamera_init_def check_valid_params_def check_valid_shape_def
        contiguous_fields)
  have "\<exists>st' lst. initialize_parameters store0
        [\<lparr>height = contiguous 2 [2], width = contiguous 3 [2],
           intrinsics_attr = contiguous 0 [2, 1, 4, 4],
           extrinsics_attr = contiguous 1 [2, 1, 4, 4]\<rparr>] = Inr (st', lst) \<and>
      shape (intrinsics_attr lst) = [2, 1, 1, 4, 4] \<and>
      num_cameras lst = Inl (ValueError
        ''Argument intrinsics shape must be in the following shape Bx4x4 or BxNx4x4. Got torch.Size([2, 1, 1, 4, 4])'') \<and>
      get_pinhole lst 0 = Inl (ValueError
        ''Argument intrinsics shape must be in the following shape Bx4x4 or BxNx4x4. Got torch.Size([2, 1, 1, 4, 4])'')"
    by (simp add: initialize_parameters_def intrinsics_def extrinsics_def check_valid_params_def
        stack1_def contiguous_fields Let_def num_cameras_def get_pinhole_def index_last_def
        slice_is_not_tuple_def str_size_def str_nat.simps)
  with init al show ?thesis by (intro conjI)
qed

end
